theory Spec2Isabelle
  imports Complex_Main
begin

section \<open>Simpleperf: a shallow embedding of simpleperf.py\<close>

text \<open>
  Python \<open>bytes\<close> and \<open>str\<close> values are lists of characters, Python's unbounded
  integers are \<open>int\<close>, and Python floats are real numbers: the values of the clock
  enter as the real numbers they are, and the arithmetic on floats is exact (the
  rounding of a floating-point division or subtraction is outside the model).
\<close>

type_synonym bytes = string

subsection \<open>Errors\<close>

text \<open>
  Every failure of the functions below is a Python \<open>ValueError\<close> or a
  \<open>ZeroDivisionError\<close>. The model tells the \<open>ValueError\<close>s apart by the statement
  that raises them: \<open>InvalidUnit\<close> is the explicit \<open>raise ValueError("Invalid unit
  specified ...")\<close> of \<open>format_size\<close> and \<open>parse_num_bytes\<close>, \<open>MalformedInput\<close> is the
  \<open>ValueError\<close> raised by \<open>int(num)\<close> or by unpacking \<open>num, unit = ...\<close>.
\<close>

datatype error = InvalidUnit | MalformedInput | ZeroDivisionError

subsection \<open>Constants\<close>

definition BUFFER_SIZE :: nat where
  "BUFFER_SIZE = 1000"

text \<open>The dictionary \<open>{'B': 1, 'KB': 1000, 'MB': 1000000}\<close> of lines 41 and 126.\<close>

definition units :: "string \<rightharpoonup> int" where
  "units = [''B'' \<mapsto> 1, ''KB'' \<mapsto> 1000, ''MB'' \<mapsto> 1000000]"

subsection \<open>Unit conversion (lines 23-69)\<close>

definition format_size :: "real \<Rightarrow> string \<Rightarrow> error + real" where
  "format_size sz unit =
     (case units unit of
        None \<Rightarrow> Inl InvalidUnit
      | Some f \<Rightarrow> Inr (sz / real_of_int f))"

text \<open>Python's float division raises \<open>ZeroDivisionError\<close> on a zero divisor.\<close>

definition calculate_rate :: "real \<Rightarrow> real \<Rightarrow> error + real" where
  "calculate_rate data elapsed_time =
     (let megabits = (data * 8) / 1000000
      in if elapsed_time = 0 then Inl ZeroDivisionError
         else Inr (megabits / elapsed_time))"

subsection \<open>Strings: \<open>str.strip\<close>, \<open>str.split\<close>, \<open>int\<close> and \<open>str\<close>\<close>

text \<open>
  A string is the list of its code points, which are below 256: a \<open>char\<close> is the
  code point of that number (ASCII and Latin-1), and strings with other characters
  are outside the model. Among these code points the whitespace of \<open>str.strip()\<close>
  and \<open>str.split()\<close> is tab, line feed, vertical tab, form feed, carriage return,
  the four separators \<open>0x1C\<close> to \<open>0x1F\<close>, the space, the next-line control
  \<open>0x85\<close> and the no-break space \<open>0xA0\<close>.
\<close>

definition is_space :: "char \<Rightarrow> bool" where
  "is_space c = (c \<in> set [CHR 0x09, CHR 0x0A, CHR 0x0B, CHR 0x0C, CHR 0x0D,
                            CHR 0x1C, CHR 0x1D, CHR 0x1E, CHR 0x1F, CHR 0x20,
                            CHR 0x85, CHR 0xA0])"

definition strip :: "string \<Rightarrow> string" where
  "strip s = rev (dropWhile is_space (rev (dropWhile is_space s)))"

text \<open>
  \<open>s.split()\<close>: the maximal runs of characters that are not whitespace. \<open>cur\<close> is
  the token being read.
\<close>

fun split_from :: "string \<Rightarrow> string \<Rightarrow> string list" where
  "split_from cur [] = (if cur = [] then [] else [cur])"
| "split_from cur (c # cs) =
     (if is_space c then (if cur = [] then split_from [] cs else cur # split_from [] cs)
      else split_from (cur @ [c]) cs)"

definition split :: "string \<Rightarrow> string list" where
  "split s = split_from [] s"

definition is_digit :: "char \<Rightarrow> bool" where
  "is_digit c = (48 \<le> (of_char c :: nat) \<and> (of_char c :: nat) \<le> 57)"

definition digit_val :: "char \<Rightarrow> int" where
  "digit_val c = int (of_char c) - 48"

text \<open>
  The digits of an integer literal as \<open>int()\<close> reads it: at least one digit, single
  underscores allowed between digits only. The flag says that the previous character
  was a digit.
\<close>

fun int_body :: "bool \<Rightarrow> string \<Rightarrow> bool" where
  "int_body prev [] = prev"
| "int_body prev (c # cs) =
     (if is_digit c then int_body True cs
      else c = CHR ''_'' \<and> prev \<and> int_body False cs)"

definition int_value :: "string \<Rightarrow> int" where
  "int_value s = foldl (\<lambda>acc c. 10 * acc + digit_val c) 0 (filter (\<lambda>c. c \<noteq> CHR ''_'') s)"

text \<open>
  \<open>int(s)\<close> in base 10: surrounding whitespace is dropped, one sign is allowed, and
  anything else raises \<open>ValueError\<close>. The whitespace that \<open>int\<close> drops is that of
  \<open>str.strip()\<close> without the four separators \<open>0x1C\<close> to \<open>0x1F\<close>. Among the
  code points below 256 the decimal digits are \<open>0\<close> to \<open>9\<close>. (CPython's limit on
  the number of digits of a converted string is not modelled.)
\<close>

definition int_space :: "char \<Rightarrow> bool" where
  "int_space c = (c \<in> set [CHR 0x09, CHR 0x0A, CHR 0x0B, CHR 0x0C, CHR 0x0D, CHR 0x20,
                              CHR 0x85, CHR 0xA0])"

definition int_strip :: "string \<Rightarrow> string" where
  "int_strip s = rev (dropWhile int_space (rev (dropWhile int_space s)))"

definition py_int :: "string \<Rightarrow> error + int" where
  "py_int s =
     (case int_strip s of
        [] \<Rightarrow> Inl MalformedInput
      | c # cs \<Rightarrow>
          if c = CHR ''-'' then (if int_body False cs then Inr (- int_value cs) else Inl MalformedInput)
          else if c = CHR ''+'' then (if int_body False cs then Inr (int_value cs) else Inl MalformedInput)
          else if int_body False (c # cs) then Inr (int_value (c # cs))
          else Inl MalformedInput)"

text \<open>\<open>str(n)\<close> for an integer: its decimal numeral.\<close>

definition digit_char :: "nat \<Rightarrow> char" where
  "digit_char d = char_of (48 + d)"

fun str_nat :: "nat \<Rightarrow> string" where
  "str_nat n = (if n < 10 then [digit_char n] else str_nat (n div 10) @ [digit_char (n mod 10)])"

declare str_nat.simps [simp del]

definition str_int :: "int \<Rightarrow> string" where
  "str_int n = (if n < 0 then CHR ''-'' # str_nat (nat (- n)) else str_nat (nat n))"

subsection \<open>\<open>parse_num_bytes\<close> (lines 106-135)\<close>

text \<open>
  \<open>None\<close> is Python's \<open>None\<close>. The unpacking \<open>num, unit = ...\<close> raises unless there
  are exactly two tokens, and \<open>int(num)\<close> runs before the unit is looked up.
\<close>

definition parse_num_bytes :: "string \<Rightarrow> error + int option" where
  "parse_num_bytes num_string =
     (if num_string = [] then Inr None
      else
        (case split (strip num_string) of
           [num, unit] \<Rightarrow>
             (case py_int num of
                Inl e \<Rightarrow> Inl e
              | Inr n \<Rightarrow>
                  (case units unit of
                     None \<Rightarrow> Inl InvalidUnit
                   | Some f \<Rightarrow> Inr (Some (n * f))))
         | _ \<Rightarrow> Inl MalformedInput))"

subsection \<open>Configuration and printed output\<close>

text \<open>The namespace returned by \<open>parser.parse_args()\<close> (lines 542-564).\<close>

record args =
  server :: bool
  bind :: string
  port :: int
  format :: string
  client :: bool
  serverip :: string
  time :: int
  interval :: int
  parallel :: int
  num :: string

text \<open>
  What \<open>print\<close> writes. A row of the table keeps its numeric cells as numbers (the
  rendering of floats by \<open>:.2f\<close> is not modelled); \<open>Header\<close> is a table row of four
  fixed titles; \<open>Line\<close> is any other text.
\<close>

datatype out =
    Line string
  | Header string string string string
  | IntervalRow string int int real string real
  | FinalRow string real real string real

type_synonym result = "string \<times> int \<times> real \<times> real \<times> real"

definition peer_id :: "string \<Rightarrow> int \<Rightarrow> string" where
  "peer_id ip p = ip @ '':'' @ str_int p"

definition print_interval :: "int \<Rightarrow> int \<Rightarrow> int \<Rightarrow> int \<Rightarrow> args \<Rightarrow> error + out" where
  "print_interval total_sent last_interval_sent interval_start interval_stop a =
     (let interval_sent = total_sent - last_interval_sent
      in case format_size (real_of_int interval_sent) (format a) of
           Inl e \<Rightarrow> Inl e
         | Inr sent_data \<Rightarrow>
             (case calculate_rate (real_of_int interval_sent) (real_of_int (interval a)) of
                Inl e \<Rightarrow> Inl e
              | Inr rate \<Rightarrow>
                  Inr (IntervalRow (peer_id (serverip a) (port a)) interval_start interval_stop
                         sent_data (format a) rate)))"

definition print_header :: "args \<Rightarrow> out" where
  "print_header a =
     (if server a then Header ''ID'' ''Interval'' ''Received'' ''Rate\<newline>''
      else Header ''ID'' ''Interval'' ''Transfer'' ''Bandwidth\<newline>'')"

definition print_final_result :: "string \<Rightarrow> int \<Rightarrow> real \<Rightarrow> real \<Rightarrow> real \<Rightarrow> args \<Rightarrow> out" where
  "print_final_result ip p elapsed data rate a = FinalRow (peer_id ip p) elapsed data (format a) rate"

definition print_server_info :: "args \<Rightarrow> out list" where
  "print_server_info a =
     [Line ''------------------------------------------------------------'',
      Line (''       A simpleperf server is listening on port '' @ str_int (port a)),
      Line ''------------------------------------------------------------\<newline>'']"

definition print_client_connection :: "args \<Rightarrow> string \<Rightarrow> int \<Rightarrow> out" where
  "print_client_connection a client_ip client_port =
     (if parallel a > 1 then
        Line (''Client '' @ client_ip @ '':'' @ str_int client_port @ '' connected with ''
              @ serverip a @ '' port '' @ str_int (port a))
      else Line (''Client connected with '' @ serverip a @ '' port '' @ str_int (port a) @ ''\<newline>''))"

subsection \<open>The server's session: \<open>handle_client\<close> (lines 197-255)\<close>

text \<open>\<open>pat in data\<close> for bytes: \<open>pat\<close> occurs in \<open>data\<close> as a contiguous run.\<close>

fun bytes_in :: "bytes \<Rightarrow> bytes \<Rightarrow> bool" where
  "bytes_in pat [] = (pat = [])"
| "bytes_in pat (c # cs) = (take (length pat) (c # cs) = pat \<or> bytes_in pat cs)"

text \<open>
  The server's side of one connection: \<open>unread\<close> holds the values that the coming
  calls of \<open>connection.recv(BUFFER_SIZE)\<close> return, in order (the empty value, or no
  value left, is a peer that has closed); \<open>sent\<close> holds what \<open>sendall\<close> has written.
\<close>

record handler =
  unread :: "bytes list"
  sent :: "bytes list"
  total_received :: int
  conn_closed :: bool

text \<open>Lines 226-239. The first argument is \<open>unread\<close>, the loop reads its head.\<close>

fun receive_loop :: "bytes list \<Rightarrow> handler \<Rightarrow> handler" where
  "receive_loop [] h = h\<lparr>unread := []\<rparr>"
| "receive_loop (data # rest) h =
     (if data = [] then h\<lparr>unread := rest\<rparr>
      else if bytes_in ''BYE'' data then
        h\<lparr>unread := rest,
          sent := sent h @ [''ACK: BYE''],
          total_received := total_received h + (int (length data) - int (length ''BYE''))\<rparr>
      else receive_loop rest (h\<lparr>total_received := total_received h + int (length data)\<rparr>))"

text \<open>
  \<open>handle_client\<close>: \<open>chunks\<close> is what the client's connection delivers and
  \<open>elapsed_time\<close> the difference of the two clock readings (lines 222, 245). The
  result is the connection's final state with what the handler prints after the
  connection is closed, or the exception raised there.
\<close>

definition handle_client :: "string \<times> int \<Rightarrow> bytes list \<Rightarrow> args \<Rightarrow> real \<Rightarrow> handler \<times> out list \<times> (error + out list)" where
  "handle_client address chunks a elapsed_time =
     (let banner = print_server_info a @
            [Line (''A simpleperf client with '' @ fst address @ '':'' @ str_int (snd address)
                   @ '' is connected with '' @ bind a @ '':'' @ str_int (port a) @ ''\<newline>'')];
          h0 = \<lparr>unread = chunks, sent = [], total_received = 0, conn_closed = False\<rparr>;
          h1 = receive_loop (unread h0) h0;
          h2 = h1\<lparr>conn_closed := True\<rparr>
      in (h2, banner,
          (case format_size (real_of_int (total_received h2)) (format a) of
             Inl e \<Rightarrow> Inl e
           | Inr received_data \<Rightarrow>
               (case calculate_rate (real_of_int (total_received h2)) elapsed_time of
                  Inl e \<Rightarrow> Inl e
                | Inr rate \<Rightarrow>
                    Inr [print_header a,
                         print_final_result (bind a) (port a) elapsed_time received_data rate a,
                         Line ''\<newline>'']))))"

subsection \<open>The client's session: \<open>client_connection\<close> (lines 392-503)\<close>

text \<open>
  The client's socket after lines 417-421: what \<open>sendall\<close> has written, the timeout
  set by \<open>settimeout(5)\<close>, and whether \<open>close\<close> was called. The connection is taken
  to be established and to stay so: a refused or reset connection, which the program
  does not handle, is not modelled.
\<close>

record client_socket =
  outbox :: "bytes list"
  timeout :: real
  is_closed :: bool

text \<open>
  What a session meets outside the program. Time is what the clock of \<open>time.time()\<close>
  reads, a real number: the reading at line 424; for each reading at line 452, by how
  much it is later than the reading before; \<open>oversleep\<close>, by how much the clock
  after \<open>time.sleep\<close> exceeds the clock before it plus the remainder of the floor
  (it is below zero when the clock is set back meanwhile, and when the clock's value,
  a double, is rounded down); the server's reply (by how much the clock has moved on
  when it arrives after \<open>BYE\<close>, and what \<open>recv(1024)\<close> returns; \<open>None\<close> if nothing
  ever arrives); by how much the reading at line 495 is later than the clock at the
  return of \<open>recv\<close>; and the socket's own name.
\<close>

record env =
  clock :: real
  delays :: "real list"
  oversleep :: real
  reply :: "(real \<times> bytes) option"
  final_delay :: real
  sockname :: "string \<times> int"

record session =
  sock :: client_socket
  now :: real
  start_time :: real
  total_sent :: int
  last_interval_sent :: int
  data_to_send :: bytes
  interval_start :: int
  interval_stop :: int
  remaining_bytes :: int
  elapsed_time :: real
  printed :: "out list"

text \<open>
  A session returns, dies of an exception (the state is the one it leaves behind),
  or is still in its send loop when the readings of the clock in \<open>delays\<close> are used
  up. The value returned with the state is, for the session, \<open>results_list\<close>: the
  list shared with the orchestrator is passed to the session and returned with what
  the session has appended; a session that raises leaves it as it was.
\<close>

datatype 'r outcome = Returned session 'r | Raised error session | Unfinished

datatype step = Continue session | Break session | Fail error session

definition min_duration :: real where
  "min_duration = 0.1"

text \<open>The slice \<open>xs[:n]\<close>; a negative \<open>n\<close> counts from the end.\<close>

definition slice_to :: "'a list \<Rightarrow> int \<Rightarrow> 'a list" where
  "slice_to xs n = (if 0 \<le> n then take (nat n) xs else take (nat (int (length xs) + n)) xs)"

definition sendall :: "session \<Rightarrow> bytes \<Rightarrow> session" where
  "sendall s data = s\<lparr>sock := (sock s)\<lparr>outbox := outbox (sock s) @ [data]\<rparr>\<rparr>"

definition close :: "session \<Rightarrow> session" where
  "close s = s\<lparr>sock := (sock s)\<lparr>is_closed := True\<rparr>\<rparr>"

text \<open>Lines 454-458: the interval report.\<close>

definition report_interval :: "args \<Rightarrow> session \<Rightarrow> error + session" where
  "report_interval a s =
     (if interval a > 0 \<and> elapsed_time s \<ge> real_of_int (interval_stop s) then
        (case print_interval (total_sent s) (last_interval_sent s) (interval_start s)
                (interval_stop s) a of
           Inl e \<Rightarrow> Inl e
         | Inr row \<Rightarrow>
             Inr (s\<lparr>printed := printed s @ [row],
                    last_interval_sent := total_sent s,
                    interval_start := interval_stop s,
                    interval_stop := interval_stop s + interval a\<rparr>))
      else Inr s)"

text \<open>Lines 469-470.\<close>

definition send_chunk :: "session \<Rightarrow> session" where
  "send_chunk s =
     (let s1 = sendall s (data_to_send s)
      in s1\<lparr>total_sent := total_sent s1 + int (length (data_to_send s1))\<rparr>)"

text \<open>One pass through the body of \<open>while True\<close> (lines 452-470); \<open>d\<close> is the time
  that has passed since the previous reading of the clock.\<close>

definition loop_body :: "args \<Rightarrow> real \<Rightarrow> session \<Rightarrow> step" where
  "loop_body a d s0 =
     (let s1 = s0\<lparr>now := now s0 + d\<rparr>;
          s2 = s1\<lparr>elapsed_time := now s1 - start_time s1\<rparr>
      in case report_interval a s2 of
           Inl e \<Rightarrow> Fail e s2
         | Inr s3 \<Rightarrow>
             if elapsed_time s3 \<ge> real_of_int (time a) then Break s3
             else if num a \<noteq> [] then
               (if remaining_bytes s3 \<le> 0 then Break s3
                else
                  (let s4 = s3\<lparr>data_to_send := slice_to (data_to_send s3) (remaining_bytes s3)\<rparr>;
                       s5 = s4\<lparr>remaining_bytes :=
                                 remaining_bytes s4 - int (length (data_to_send s4))\<rparr>
                   in Continue (send_chunk s5)))
             else Continue (send_chunk s3))"

fun send_loop :: "args \<Rightarrow> real list \<Rightarrow> session \<Rightarrow> unit outcome" where
  "send_loop a [] s = Unfinished"
| "send_loop a (d # ds) s =
     (case loop_body a d s of
        Break s' \<Rightarrow> Returned s' ()
      | Fail e s' \<Rightarrow> Raised e s'
      | Continue s' \<Rightarrow> send_loop a ds s')"

text \<open>
  \<open>recv(1024)\<close> on a socket with a timeout: the reply if it arrives within the
  timeout, \<open>None\<close> for \<open>socket.timeout\<close>.
\<close>

definition recv :: "env \<Rightarrow> session \<Rightarrow> bytes option \<times> session" where
  "recv e s =
     (case reply e of
        None \<Rightarrow> (None, s\<lparr>now := now s + timeout (sock s)\<rparr>)
      | Some (d, data) \<Rightarrow>
          if d \<le> timeout (sock s) then (Some data, s\<lparr>now := now s + d\<rparr>)
          else (None, s\<lparr>now := now s + timeout (sock s)\<rparr>))"

text \<open>Lines 472-503: what follows the send loop.\<close>

definition finish_session :: "args \<Rightarrow> env \<Rightarrow> result list \<Rightarrow> session \<Rightarrow> result list outcome" where
  "finish_session a e results_list s0 =
     (let remaining_duration = min_duration - elapsed_time s0;
          s1 = (if remaining_duration > 0
                then s0\<lparr>now := now s0 + remaining_duration + oversleep e\<rparr> else s0);
          s2 = sendall s1 ''BYE''
      in case recv e s2 of
           (None, s3) \<Rightarrow>
             Returned (close (s3\<lparr>printed := printed s3 @
               [Line ''Error: Timeout while waiting for acknowledgement from server.'']\<rparr>))
               results_list
         | (Some acknowledgement, s3) \<Rightarrow>
             (let s4 = (if interval a > 0
                        then s3\<lparr>printed := printed s3 @
                          [Line ''\<newline>------------------------------------------------------------\<newline>'']\<rparr>
                        else s3)
              in if acknowledgement = ''ACK: BYE'' then
                   (let s5 = s4\<lparr>now := now s4 + final_delay e\<rparr>;
                        s6 = s5\<lparr>elapsed_time := now s5 - start_time s5\<rparr>
                    in case format_size (real_of_int (total_sent s6)) (format a) of
                         Inl err \<Rightarrow> Raised err s6
                       | Inr sent_data \<Rightarrow>
                           (case calculate_rate (real_of_int (total_sent s6)) (elapsed_time s6) of
                              Inl err \<Rightarrow> Raised err s6
                            | Inr rate \<Rightarrow>
                                Returned (close s6)
                                  (results_list @
                                     [(serverip a, port a, elapsed_time s6, sent_data, rate)])))
                 else
                   Returned (close (s4\<lparr>printed := printed s4 @
                     [Line ''Error: Invalid acknowledgement message received from server.'']\<rparr>))
                     results_list))"

text \<open>Lines 417-444: the session's state when the socket is connected.\<close>

definition initial_session :: "args \<Rightarrow> env \<Rightarrow> session" where
  "initial_session a e =
     \<lparr>sock = \<lparr>outbox = [], timeout = 5, is_closed = False\<rparr>,
      now = clock e,
      start_time = clock e,
      total_sent = 0,
      last_interval_sent = 0,
      data_to_send = replicate BUFFER_SIZE (CHR ''0''),
      interval_start = 0,
      interval_stop = interval a,
      remaining_bytes = 0,
      elapsed_time = 0,
      printed = [print_client_connection a (fst (sockname e)) (snd (sockname e))]\<rparr>"

text \<open>
  Lines 417-448: the state in which the send loop starts, or the exception of
  \<open>parse_num_bytes\<close>. (\<open>parse_num_bytes\<close> returns \<open>None\<close> for the empty string only,
  which line 447 excludes.)
\<close>

definition start_session :: "args \<Rightarrow> env \<Rightarrow> error + session" where
  "start_session a e =
     (let s0 = initial_session a e
      in if num a \<noteq> [] then
           (case parse_num_bytes (num a) of
              Inl err \<Rightarrow> Inl err
            | Inr None \<Rightarrow> Inr s0
            | Inr (Some n) \<Rightarrow> Inr (s0\<lparr>remaining_bytes := n\<rparr>))
         else Inr s0)"

definition client_connection :: "args \<Rightarrow> env \<Rightarrow> result list \<Rightarrow> result list outcome" where
  "client_connection a e results_list =
     (case start_session a e of
        Inl err \<Rightarrow> Raised err (initial_session a e)
      | Inr s1 \<Rightarrow>
          (case send_loop a (delays e) s1 of
             Returned s2 _ \<Rightarrow> finish_session a e results_list s2
           | Raised err s2 \<Rightarrow> Raised err s2
           | Unfinished \<Rightarrow> Unfinished))"

subsection \<open>The client's orchestrator: \<open>create_parallel_connections\<close> (lines 348-389)\<close>

text \<open>
  The sessions are separate processes whose only shared object is the manager's list,
  to which a session appends at most once, as its last action, and which no session
  reads. The list after the joins is therefore the one obtained by running the
  sessions one after the other in the order in which they reach their end: \<open>rank\<close>
  gives that order, \<open>session_env i\<close> is what process \<open>i\<close> meets. A process that dies
  of an exception is joined like the others; the joins do not return while a session
  is unfinished.
\<close>

fun run_sessions :: "args \<Rightarrow> env list \<Rightarrow> result list \<Rightarrow> result list option" where
  "run_sessions a [] results_list = Some results_list"
| "run_sessions a (e # es) results_list =
     (case client_connection a e results_list of
        Returned s results_list' \<Rightarrow> run_sessions a es results_list'
      | Raised err s \<Rightarrow> run_sessions a es results_list
      | Unfinished \<Rightarrow> None)"

definition create_parallel_connections ::
    "args \<Rightarrow> (nat \<Rightarrow> env) \<Rightarrow> (nat \<Rightarrow> nat) \<Rightarrow> (result list \<times> out list) option" where
  "create_parallel_connections a session_env rank =
     (let processes = [0..<nat (parallel a)]
      in case run_sessions a (map session_env (sort_key rank processes)) [] of
           None \<Rightarrow> None
         | Some results_list \<Rightarrow>
             Some (results_list,
                   (if parallel a > 1 then [Line ''\<newline>''] else []) @
                   [print_header a] @
                   map (\<lambda>(ip, p, elapsed, data, rate). print_final_result ip p elapsed data rate a)
                       results_list))"

subsection \<open>\<open>main\<close> (lines 564-579)\<close>

text \<open>
  What \<open>main\<close> does with the parsed arguments, in order: it prints, calls
  \<open>sys.exit\<close>, or calls one of the two modes.
\<close>

datatype event = Print out | SysExit int | Call_server_mode | Call_client_mode

definition main :: "args \<Rightarrow> event list" where
  "main a =
     (if \<not> server a \<and> \<not> client a then
        [Print (Line ''Error: you must run either in server or client mode''), SysExit 1]
      else if server a then [Call_server_mode]
      else if time a > 0 then [Call_client_mode]
      else [Print (Line ''Error: the -t (time) operation must be greater that 0.'')])"

text \<open>
  The exit status of the interpreter: the argument of the first \<open>sys.exit\<close>, and 0
  when \<open>main\<close> returns (the mode it called having returned).
\<close>

fun exit_status :: "event list \<Rightarrow> int" where
  "exit_status [] = 0"
| "exit_status (SysExit n # evs) = n"
| "exit_status (ev # evs) = exit_status evs"

subsection \<open>Notions used in the statements\<close>

text \<open>The values of \<open>elapsed_time\<close> at line 452 in the successive passes of the loop,
  when \<open>t\<close> is the time elapsed so far.\<close>

fun elapsed_times :: "real \<Rightarrow> real list \<Rightarrow> real list" where
  "elapsed_times t [] = []"
| "elapsed_times t (d # ds) = (t + d) # elapsed_times (t + d) ds"

text \<open>
  After the send loop the clock does not fall behind: after \<open>time.sleep\<close> it has
  moved on by the remainder of the floor at least, the reply does not arrive before
  \<open>BYE\<close> is sent, and the reading at line 495 is not behind the clock at the return of
  \<open>recv\<close>.
\<close>

definition time_advances :: "env \<Rightarrow> bool" where
  "time_advances e =
     (0 \<le> oversleep e \<and> 0 \<le> final_delay e \<and>
      (case reply e of None \<Rightarrow> True | Some (d, data) \<Rightarrow> 0 \<le> d))"

text \<open>The time windows of the interval rows among the printed lines, in order.\<close>

fun windows :: "out list \<Rightarrow> (int \<times> int) list" where
  "windows [] = []"
| "windows (IntervalRow ident start stop data unit rate # os) = (start, stop) # windows os"
| "windows (x # os) = windows os"

text \<open>
  The invariant of the send loop for the interval reports: \<open>k\<close> reports have been
  printed, their windows are the first \<open>k\<close> multiples of the interval length, and the
  next window is the one after them.
\<close>

definition windows_inv :: "args \<Rightarrow> nat \<Rightarrow> session \<Rightarrow> bool" where
  "windows_inv a k s =
     (interval_start s = int k * interval a \<and>
      interval_stop s = (int k + 1) * interval a \<and>
      windows (printed s) = map (\<lambda>j. (int j * interval a, (int j + 1) * interval a)) [0..<k] \<and>
      (k = 0 \<or> 0 < interval a))"

fun is_header :: "out \<Rightarrow> bool" where
  "is_header (Header c1 c2 c3 c4) = True"
| "is_header x = False"


text \<open>What a session appends to the shared list.\<close>

definition appended :: "args \<Rightarrow> env \<Rightarrow> result list" where
  "appended a e =
     (case client_connection a e [] of
        Returned s results_list \<Rightarrow> results_list
      | Raised err s \<Rightarrow> []
      | Unfinished \<Rightarrow> [])"

section \<open>Properties\<close>

subsection \<open>Unit conversion\<close>

lemma units_B: "units ''B'' = Some 1"
  by (simp add: units_def)

lemma units_KB: "units ''KB'' = Some 1000"
  by (simp add: units_def)

lemma units_MB: "units ''MB'' = Some 1000000"
  by (simp add: units_def)

text \<open>
  Claim C8. Over exact arithmetic, \<open>format_size\<close> divides by 1 for \<open>B\<close>, by 1000 for
  \<open>KB\<close> and by 1000000 for \<open>MB\<close>, and so the value for \<open>KB\<close> times 1000 is the value
  for \<open>B\<close>, for every byte count (non-negative or not).
\<close>

theorem format_size_KB_B:
  "format_size x ''B'' = Inr (x / 1) \<and>
   format_size x ''KB'' = Inr (x / 1000) \<and>
   format_size x ''MB'' = Inr (x / 1000000) \<and>
   (\<exists>k b. format_size x ''KB'' = Inr k \<and> format_size x ''B'' = Inr b \<and> k * 1000 = b)"
  by (simp add: format_size_def units_B units_KB units_MB) (rule exI [of _ "x / 1000"], simp)

subsection \<open>Parsing a byte count\<close>

lemma is_digit_digit_char: "d < 10 \<Longrightarrow> is_digit (digit_char d)"
  by (simp add: is_digit_def digit_char_def)

lemma digit_val_digit_char: "d < 10 \<Longrightarrow> digit_val (digit_char d) = int d"
  by (simp add: digit_val_def digit_char_def)

lemma is_digit_not_space: "is_digit c \<Longrightarrow> \<not> is_space c"
  by (auto simp: is_digit_def is_space_def)

lemma int_space_is_space: "int_space c \<Longrightarrow> is_space c"
  by (auto simp: int_space_def is_space_def)

lemma is_digit_not_int_space: "is_digit c \<Longrightarrow> \<not> int_space c"
  by (auto simp: is_digit_def int_space_def)

lemma is_digit_not_sign: "is_digit c \<Longrightarrow> c \<noteq> CHR ''-'' \<and> c \<noteq> CHR ''+'' \<and> c \<noteq> CHR ''_''"
  by (auto simp: is_digit_def)

lemma str_nat_digits: "c \<in> set (str_nat n) \<Longrightarrow> is_digit c"
proof (induction n arbitrary: c rule: str_nat.induct)
  case (1 n)
  show ?case
  proof (cases "n < 10")
    case True
    with "1.prems" show ?thesis
      by (subst (asm) str_nat.simps) (simp add: is_digit_digit_char)
  next
    case False
    with "1.prems" "1.IH" show ?thesis
      by (subst (asm) str_nat.simps) (auto simp: is_digit_digit_char)
  qed
qed

lemma str_nat_nonempty: "str_nat n \<noteq> []"
  by (subst str_nat.simps) simp

lemma int_body_digits: "s \<noteq> [] \<Longrightarrow> \<forall>c \<in> set s. is_digit c \<Longrightarrow> int_body b s"
proof (induction s arbitrary: b)
  case Nil
  then show ?case by simp
next
  case (Cons c cs)
  then show ?case by (cases cs) auto
qed

lemma int_value_snoc:
  "c \<noteq> CHR ''_'' \<Longrightarrow> int_value (s @ [c]) = 10 * int_value s + digit_val c"
  by (simp add: int_value_def)

lemma int_value_str_nat: "int_value (str_nat n) = int n"
proof (induction n rule: str_nat.induct)
  case (1 n)
  show ?case
  proof (cases "n < 10")
    case True
    then show ?thesis
      by (subst str_nat.simps) (simp add: int_value_def digit_val_digit_char is_digit_not_sign is_digit_digit_char)
  next
    case False
    have "int_value (str_nat n) = 10 * int_value (str_nat (n div 10)) + digit_val (digit_char (n mod 10))"
      using False by (subst str_nat.simps) (simp add: int_value_snoc is_digit_not_sign is_digit_digit_char)
    also have "\<dots> = 10 * int (n div 10) + int (n mod 10)"
      using False "1.IH" by (simp add: digit_val_digit_char)
    also have "\<dots> = int n"
      by presburger
    finally show ?thesis .
  qed
qed


lemma strip_id: "s \<noteq> [] \<Longrightarrow> \<not> is_space (hd s) \<Longrightarrow> \<not> is_space (last s) \<Longrightarrow> strip s = s"
proof -
  assume ne: "s \<noteq> []" and h: "\<not> is_space (hd s)" and l: "\<not> is_space (last s)"
  from ne h have a: "dropWhile is_space s = s"
    by (cases s) simp_all
  from ne l have b: "dropWhile is_space (rev s) = rev s"
    by (cases "rev s") (simp_all add: last_rev [symmetric] hd_rev)
  show ?thesis
    by (simp add: strip_def a b)
qed

lemma int_strip_id:
  "s \<noteq> [] \<Longrightarrow> \<not> int_space (hd s) \<Longrightarrow> \<not> int_space (last s) \<Longrightarrow> int_strip s = s"
proof -
  assume ne: "s \<noteq> []" and h: "\<not> int_space (hd s)" and l: "\<not> int_space (last s)"
  from ne h have a: "dropWhile int_space s = s"
    by (cases s) simp_all
  from ne l have b: "dropWhile int_space (rev s) = rev s"
    by (cases "rev s") (simp_all add: last_rev [symmetric] hd_rev)
  show ?thesis
    by (simp add: int_strip_def a b)
qed

lemma split_from_token:
  "\<forall>c \<in> set xs. \<not> is_space c \<Longrightarrow> split_from cur (xs @ ys) = split_from (cur @ xs) ys"
  by (induction xs arbitrary: cur) simp_all

lemma split_token:
  assumes "u \<noteq> []" "\<forall>c \<in> set u. \<not> is_space c"
  shows "split u = [u]"
proof -
  have "split_from [] (u @ []) = split_from ([] @ u) []"
    using assms(2) by (rule split_from_token)
  with assms(1) show ?thesis
    by (simp add: split_def)
qed

lemma split_two_tokens:
  assumes "t \<noteq> []" "\<forall>c \<in> set t. \<not> is_space c" "u \<noteq> []" "\<forall>c \<in> set u. \<not> is_space c"
  shows "split (t @ CHR '' '' # u) = [t, u]"
proof -
  have "split_from [] (t @ (CHR '' '' # u)) = split_from ([] @ t) (CHR '' '' # u)"
    using assms(2) by (rule split_from_token)
  also have "\<dots> = t # split_from [] u"
    using assms(1) by (simp add: is_space_def)
  also have "split_from [] u = [u]"
    using split_token [OF assms(3,4)] by (simp add: split_def)
  finally show ?thesis
    by (simp add: split_def)
qed

lemma str_int_nonempty: "str_int n \<noteq> []"
  by (simp add: str_int_def str_nat_nonempty)

lemma str_int_no_space: "c \<in> set (str_int n) \<Longrightarrow> \<not> is_space c"
proof -
  assume "c \<in> set (str_int n)"
  then have "c = CHR ''-'' \<or> is_digit c"
    by (auto simp: str_int_def dest: str_nat_digits split: if_splits)
  then show ?thesis
    by (auto simp: is_space_def dest: is_digit_not_space)
qed

lemma py_int_str_nat: "py_int (str_nat n) = Inr (int n)"
proof -
  obtain c cs where s: "str_nat n = c # cs"
    using str_nat_nonempty [of n] by (cases "str_nat n") auto
  have d: "\<forall>x \<in> set (c # cs). is_digit x"
    using str_nat_digits [of _ n] s by auto
  have l: "is_digit (last (c # cs))"
    using d last_in_set [of "c # cs"] by blast
  have st: "int_strip (c # cs) = c # cs"
    using d l by (intro int_strip_id) (auto dest: is_digit_not_int_space)
  have b: "int_body False (c # cs)"
    using d by (intro int_body_digits) auto
  have v: "int_value (c # cs) = int n"
    using int_value_str_nat [of n] s by simp
  from d have "c \<noteq> CHR ''-''" "c \<noteq> CHR ''+''"
    using is_digit_not_sign [of c] by auto
  then show ?thesis
    using b v by (simp add: py_int_def s st)
qed

lemma py_int_str_int: "py_int (str_int n) = Inr n"
proof (cases "n < 0")
  case False
  then show ?thesis
    by (simp add: str_int_def py_int_str_nat)
next
  case True
  let ?s = "str_nat (nat (- n))"
  have ne: "?s \<noteq> []" by (rule str_nat_nonempty)
  have d: "\<forall>x \<in> set ?s. is_digit x"
    using str_nat_digits by blast
  have "is_digit (last ?s)"
    using d ne last_in_set by blast
  then have st: "int_strip (CHR ''-'' # ?s) = CHR ''-'' # ?s"
    using ne by (intro int_strip_id) (auto simp: int_space_def dest: is_digit_not_int_space)
  have b: "int_body False ?s"
    using ne d by (rule int_body_digits)
  show ?thesis
    using True b by (simp add: str_int_def py_int_def st int_value_str_nat)
qed

lemma units_Some: "units u = Some f \<Longrightarrow> u \<noteq> [] \<and> (\<forall>c \<in> set u. \<not> is_space c)"
  by (auto simp: units_def is_space_def split: if_splits)

lemma units_cases: "units u = Some f \<Longrightarrow> (u = ''B'' \<and> f = 1) \<or> (u = ''KB'' \<and> f = 1000) \<or> (u = ''MB'' \<and> f = 1000000)"
  by (auto simp: units_def split: if_splits)

lemma parse_num_bytes_str_int:
  assumes "units u = Some f"
  shows "parse_num_bytes (str_int n @ '' '' @ u) = Inr (Some (n * f))"
proof -
  let ?s = "str_int n @ CHR '' '' # u"
  from units_Some [OF assms] have u: "u \<noteq> []" "\<forall>c \<in> set u. \<not> is_space c"
    by auto
  have h: "\<not> is_space (hd ?s)"
    using str_int_nonempty [of n] str_int_no_space [of "hd (str_int n)" n] by (simp add: hd_append)
  have l: "\<not> is_space (last ?s)"
    using u by simp
  have st: "strip ?s = ?s"
    using h l by (intro strip_id) (simp_all add: str_int_nonempty)
  have sp: "split ?s = [str_int n, u]"
    using str_int_nonempty str_int_no_space u by (intro split_two_tokens) auto
  show ?thesis
    using assms by (simp add: parse_num_bytes_def st sp py_int_str_int str_int_nonempty)
qed

lemma py_int_error: "py_int t = Inl err \<Longrightarrow> err = MalformedInput"
  by (auto simp: py_int_def split: list.splits if_splits)

lemma parse_num_bytes_two_tokens:
  assumes "split (strip s) = [t, u]"
  shows "parse_num_bytes s =
     (case py_int t of
        Inl err \<Rightarrow> Inl MalformedInput
      | Inr n \<Rightarrow> (case units u of None \<Rightarrow> Inl InvalidUnit | Some f \<Rightarrow> Inr (Some (n * f))))"
proof -
  have "s \<noteq> []"
    using assms by (auto simp: strip_def split_def)
  then show ?thesis
    using assms by (auto simp: parse_num_bytes_def dest: py_int_error split: sum.splits)
qed

lemma parse_num_bytes_token_count:
  assumes "s \<noteq> []" "length (split (strip s)) \<noteq> 2"
  shows "parse_num_bytes s = Inl MalformedInput"
proof (cases "split (strip s)")
  case Nil
  with assms(1) show ?thesis
    by (simp add: parse_num_bytes_def)
next
  case (Cons t ts)
  note c1 = this
  show ?thesis
  proof (cases ts)
    case Nil
    with c1 assms(1) show ?thesis
      by (simp add: parse_num_bytes_def)
  next
    case (Cons u us)
    with c1 assms(2) obtain v vs where "us = v # vs"
      by (cases us) auto
    with c1 Cons assms(1) show ?thesis
      by (simp add: parse_num_bytes_def)
  qed
qed

text \<open>
  Claim C6, as the code has it. \<open>parse_num_bytes\<close> returns \<open>None\<close> for the empty
  string; for two tokens of which the first is an integer literal \<open>n\<close> and the second
  a unit in \<open>B\<close>, \<open>KB\<close>, \<open>MB\<close> it returns \<open>n\<close> scaled by 1, 1000 or 1000000 (so for
  the decimal numeral of any integer followed by a unit, and for \<open>20000 B\<close> and
  \<open>3 KB\<close>); for an integer literal followed by an unrecognised unit it fails with
  \<open>InvalidUnit\<close> (so for \<open>5 XB\<close>); when the first of two tokens is not an integer
  literal it fails with \<open>MalformedInput\<close> whatever the second is, and so it does when
  the number of tokens is not two.
\<close>

theorem parse_num_bytes_contract:
  "parse_num_bytes [] = Inr None \<and>
   (\<forall>s t u n f. split (strip s) = [t, u] \<and> py_int t = Inr n \<and> units u = Some f
      \<longrightarrow> parse_num_bytes s = Inr (Some (n * f))) \<and>
   (\<forall>n. parse_num_bytes (str_int n @ '' B'') = Inr (Some (n * 1)) \<and>
        parse_num_bytes (str_int n @ '' KB'') = Inr (Some (n * 1000)) \<and>
        parse_num_bytes (str_int n @ '' MB'') = Inr (Some (n * 1000000))) \<and>
   parse_num_bytes ''20000 B'' = Inr (Some 20000) \<and>
   parse_num_bytes ''3 KB'' = Inr (Some 3000) \<and>
   (\<forall>s t u n. split (strip s) = [t, u] \<and> py_int t = Inr n \<and> units u = None
      \<longrightarrow> parse_num_bytes s = Inl InvalidUnit) \<and>
   parse_num_bytes ''5 XB'' = Inl InvalidUnit \<and>
   (\<forall>s t u. split (strip s) = [t, u] \<and> (\<forall>n. py_int t \<noteq> Inr n)
      \<longrightarrow> parse_num_bytes s = Inl MalformedInput) \<and>
   (\<forall>s. s \<noteq> [] \<and> length (split (strip s)) \<noteq> 2 \<longrightarrow> parse_num_bytes s = Inl MalformedInput)"
proof (intro conjI allI impI)
  show "parse_num_bytes [] = Inr None"
    by (simp add: parse_num_bytes_def)
next
  fix s t u n f
  assume "split (strip s) = [t, u] \<and> py_int t = Inr n \<and> units u = Some f"
  then show "parse_num_bytes s = Inr (Some (n * f))"
    by (simp add: parse_num_bytes_two_tokens)
next
  fix n
  show "parse_num_bytes (str_int n @ '' B'') = Inr (Some (n * 1))"
    using parse_num_bytes_str_int [OF units_B, of n] by simp
  show "parse_num_bytes (str_int n @ '' KB'') = Inr (Some (n * 1000))"
    using parse_num_bytes_str_int [OF units_KB, of n] by simp
  show "parse_num_bytes (str_int n @ '' MB'') = Inr (Some (n * 1000000))"
    using parse_num_bytes_str_int [OF units_MB, of n] by simp
next
  show "parse_num_bytes ''20000 B'' = Inr (Some 20000)"
    by code_simp
next
  show "parse_num_bytes ''3 KB'' = Inr (Some 3000)"
    by code_simp
next
  fix s t u n
  assume "split (strip s) = [t, u] \<and> py_int t = Inr n \<and> units u = None"
  then show "parse_num_bytes s = Inl InvalidUnit"
    by (simp add: parse_num_bytes_two_tokens)
next
  show "parse_num_bytes ''5 XB'' = Inl InvalidUnit"
    by code_simp
next
  fix s t u
  assume h: "split (strip s) = [t, u] \<and> (\<forall>n. py_int t \<noteq> Inr n)"
  then obtain err where "py_int t = Inl err"
    by (cases "py_int t") auto
  with h show "parse_num_bytes s = Inl MalformedInput"
    by (simp add: parse_num_bytes_two_tokens)
next
  fix s
  assume "s \<noteq> [] \<and> length (split (strip s)) \<noteq> 2"
  then show "parse_num_bytes s = Inl MalformedInput"
    by (simp add: parse_num_bytes_token_count)
qed

theorem parse_num_bytes_contract_witness:
  "split (strip '' 12  MB '') = [''12'', ''MB''] \<and> py_int ''12'' = Inr 12 \<and>
   units ''MB'' = Some 1000000 \<and> parse_num_bytes '' 12  MB '' = Inr (Some (12 * 1000000)) \<and>
   split (strip ''7 GB'') = [''7'', ''GB''] \<and> py_int ''7'' = Inr 7 \<and> units ''GB'' = None \<and>
   parse_num_bytes ''7 GB'' = Inl InvalidUnit \<and>
   split (strip ''1.5 KB'') = [''1.5'', ''KB''] \<and> (\<forall>n. py_int ''1.5'' \<noteq> Inr n) \<and>
   parse_num_bytes ''1.5 KB'' = Inl MalformedInput \<and>
   ''12'' \<noteq> [] \<and> length (split (strip ''12'')) \<noteq> 2 \<and>
   parse_num_bytes ''12'' = Inl MalformedInput \<and>
   split (strip [CHR 0x85, CHR ''5'', CHR 0xA0, CHR ''B'', CHR 0x1C]) = [''5'', ''B''] \<and>
   parse_num_bytes [CHR 0x85, CHR ''5'', CHR 0xA0, CHR ''B'', CHR 0x1C] = Inr (Some (5 * 1))"
proof -
  have a1: "split (strip '' 12  MB '') = [''12'', ''MB'']" by code_simp
  have a2: "py_int ''12'' = Inr 12" by code_simp
  have a3: "units ''MB'' = Some 1000000" by (rule units_MB)
  have b1: "split (strip ''7 GB'') = [''7'', ''GB'']" by code_simp
  have b2: "py_int ''7'' = Inr 7" by code_simp
  have b3: "units ''GB'' = None" by (simp add: units_def)
  have c1: "split (strip ''1.5 KB'') = [''1.5'', ''KB'']" by code_simp
  have c2': "py_int ''1.5'' = Inl MalformedInput" by code_simp
  have c2: "\<forall>n. py_int ''1.5'' \<noteq> Inr n" by (simp add: c2')
  have d1: "''12'' \<noteq> []" by simp
  have d2: "length (split (strip ''12'')) \<noteq> 2" by code_simp
  note th = parse_num_bytes_contract
  from th a1 a2 a3 have a: "parse_num_bytes '' 12  MB '' = Inr (Some (12 * 1000000))"
    by blast
  from th b1 b2 b3 have b: "parse_num_bytes ''7 GB'' = Inl InvalidUnit"
    by blast
  from th c1 c2 have c: "parse_num_bytes ''1.5 KB'' = Inl MalformedInput"
    by blast
  from th d1 d2 have d: "parse_num_bytes ''12'' = Inl MalformedInput"
    by blast
  have e1: "split (strip [CHR 0x85, CHR ''5'', CHR 0xA0, CHR ''B'', CHR 0x1C]) = [''5'', ''B'']"
    by code_simp
  have e2: "py_int ''5'' = Inr 5" by code_simp
  have e3: "units ''B'' = Some 1" by (rule units_B)
  from th e1 e2 e3
  have e: "parse_num_bytes [CHR 0x85, CHR ''5'', CHR 0xA0, CHR ''B'', CHR 0x1C] = Inr (Some (5 * 1))"
    by blast
  show ?thesis
    using a1 a2 a3 a b1 b2 b3 b c1 c2 c d1 d2 d e1 e by blast
qed

text \<open>
  The claim as it is written fails where the two kinds of failure meet: in \<open>x XB\<close>
  the unit is not recognised, and the failure is the one of \<open>int\<close>, which runs first.
\<close>

theorem parse_num_bytes_unit_counterexample:
  "split (strip ''x XB'') = [''x'', ''XB''] \<and> units ''XB'' = None \<and>
   parse_num_bytes ''x XB'' = Inl MalformedInput \<and>
   parse_num_bytes ''x XB'' \<noteq> Inl InvalidUnit"
proof -
  have "split (strip ''x XB'') = [''x'', ''XB'']" by code_simp
  moreover have "units ''XB'' = None" by (simp add: units_def)
  moreover have "parse_num_bytes ''x XB'' = Inl MalformedInput" by code_simp
  ultimately show ?thesis by simp
qed

subsection \<open>The server's receive loop\<close>

lemma receive_loop_sentinel:
  assumes "\<forall>c \<in> set pre. c \<noteq> [] \<and> \<not> bytes_in ''BYE'' c" and "bytes_in ''BYE'' bye"
  shows "receive_loop (pre @ bye # rest) h =
           h\<lparr>unread := rest,
             sent := sent h @ [''ACK: BYE''],
             total_received := total_received h + (\<Sum>c\<leftarrow>pre. int (length c)) + (int (length bye) - 3)\<rparr>"
  using assms
proof (induction pre arbitrary: h)
  case Nil
  from Nil(2) have "bye \<noteq> []"
    by (cases bye) auto
  with Nil show ?case by simp
next
  case (Cons c cs)
  then show ?case by simp
qed

lemma receive_loop_no_sentinel:
  assumes "\<forall>c \<in> set chunks. \<not> bytes_in ''BYE'' c"
  shows "receive_loop chunks h =
           h\<lparr>unread := drop (Suc (length (takeWhile (\<lambda>c. c \<noteq> []) chunks))) chunks,
             total_received := total_received h + (\<Sum>c\<leftarrow>takeWhile (\<lambda>c. c \<noteq> []) chunks. int (length c))\<rparr>"
  using assms
proof (induction chunks arbitrary: h)
  case Nil
  then show ?case by simp
next
  case (Cons c cs)
  then show ?case by simp
qed

subsection \<open>The send loop under a byte cap\<close>

lemma report_interval_ok:
  assumes "units (format a) = Some f"
  shows "\<exists>s'. report_interval a s = Inr s' \<and> sock s' = sock s \<and> now s' = now s \<and>
           start_time s' = start_time s \<and> total_sent s' = total_sent s \<and>
           data_to_send s' = data_to_send s \<and> remaining_bytes s' = remaining_bytes s \<and>
           elapsed_time s' = elapsed_time s"
  by (simp add: report_interval_def print_interval_def format_size_def calculate_rate_def
        Let_def assms)

lemma loop_body_cap_break:
  assumes "num a \<noteq> []" "units (format a) = Some f" "remaining_bytes s \<le> 0"
  shows "\<exists>s'. loop_body a d s = Break s' \<and> total_sent s' = total_sent s \<and>
           sock s' = sock s \<and> remaining_bytes s' = remaining_bytes s"
proof -
  let ?s2 = "s\<lparr>now := now s + d, elapsed_time := now s + d - start_time s\<rparr>"
  obtain s3 where r: "report_interval a ?s2 = Inr s3" and
      f: "sock s3 = sock ?s2" "total_sent s3 = total_sent ?s2"
         "remaining_bytes s3 = remaining_bytes ?s2"
    using report_interval_ok [OF assms(2), of ?s2] by blast
  show ?thesis
    using assms(1,3) r f by (simp add: loop_body_def Let_def)
qed

lemma loop_body_cap_send:
  assumes "num a \<noteq> []" "units (format a) = Some f" "0 < remaining_bytes s"
    and "length (data_to_send s) = 1000"
    and "now s + d - start_time s < real_of_int (time a)"
  shows "\<exists>s' c. loop_body a d s = Continue s' \<and>
           total_sent s' = total_sent s + min (remaining_bytes s) 1000 \<and>
           remaining_bytes s' = remaining_bytes s - min (remaining_bytes s) 1000 \<and>
           outbox (sock s') = outbox (sock s) @ [c] \<and>
           int (length c) = min (remaining_bytes s) 1000 \<and>
           length (data_to_send s') = nat (min (remaining_bytes s) 1000) \<and>
           now s' - start_time s' = now s + d - start_time s"
proof -
  let ?s2 = "s\<lparr>now := now s + d, elapsed_time := now s + d - start_time s\<rparr>"
  obtain s3 where r: "report_interval a ?s2 = Inr s3" and
      f: "sock s3 = sock ?s2" "total_sent s3 = total_sent ?s2"
         "remaining_bytes s3 = remaining_bytes ?s2" "now s3 = now ?s2"
         "start_time s3 = start_time ?s2" "data_to_send s3 = data_to_send ?s2"
         "elapsed_time s3 = elapsed_time ?s2"
    using report_interval_ok [OF assms(2), of ?s2] by blast
  have l: "int (length (slice_to (data_to_send s) (remaining_bytes s))) = min (remaining_bytes s) 1000"
    using assms(3,4) by (auto simp add: slice_to_def min_def)
  show ?thesis
    using assms(1,3,5) r f l
    by (simp add: loop_body_def Let_def send_chunk_def sendall_def)
qed


lemma send_loop_cap:
  assumes "num a \<noteq> []" "units (format a) = Some f"
    and "0 \<le> remaining_bytes s"
    and "remaining_bytes s = 0 \<or> length (data_to_send s) = 1000"
    and "nat ((remaining_bytes s + 999) div 1000) < length ds"
    and "\<forall>t \<in> set (take (Suc (nat ((remaining_bytes s + 999) div 1000)))
                      (elapsed_times (now s - start_time s) ds)). t < real_of_int (time a)"
  shows "\<exists>s' chunks. send_loop a ds s = Returned s' () \<and>
           total_sent s' = total_sent s + remaining_bytes s \<and>
           outbox (sock s') = outbox (sock s) @ chunks \<and>
           (\<forall>c \<in> set chunks. length c \<le> 1000) \<and>
           (\<Sum>c\<leftarrow>chunks. int (length c)) = remaining_bytes s"
  using assms(3-)
proof (induction ds arbitrary: s)
  case Nil
  then show ?case by simp
next
  case (Cons d ds)
  let ?r = "remaining_bytes s"
  let ?K = "nat ((?r + 999) div 1000)"
  have t1: "now s + d - start_time s < real_of_int (time a)"
    using Cons.prems(4) by simp
  show ?case
  proof (cases "?r = 0")
    case True
    then obtain s' where "loop_body a d s = Break s'" "total_sent s' = total_sent s"
        "sock s' = sock s"
      using loop_body_cap_break [OF assms(1,2), of s d] by auto
    with True show ?thesis by simp
  next
    case False
    with Cons.prems(1,2) have pos: "0 < ?r" and len: "length (data_to_send s) = 1000"
      by auto
    let ?m = "min ?r 1000"
    obtain s1 c where b: "loop_body a d s = Continue s1"
        and ts: "total_sent s1 = total_sent s + ?m"
        and rb: "remaining_bytes s1 = ?r - ?m"
        and ob: "outbox (sock s1) = outbox (sock s) @ [c]"
        and lc: "int (length c) = ?m"
        and ld: "length (data_to_send s1) = nat ?m"
        and el: "now s1 - start_time s1 = now s + d - start_time s"
      using loop_body_cap_send [OF assms(1,2) pos len t1] by blast
    let ?K' = "nat ((remaining_bytes s1 + 999) div 1000)"
    have K: "Suc ?K' = ?K"
      using pos rb by (auto simp: min_def)
    have p1: "0 \<le> remaining_bytes s1"
      using pos rb by simp
    have p2: "remaining_bytes s1 = 0 \<or> length (data_to_send s1) = 1000"
      using pos rb ld by (auto simp: min_def)
    have p3: "?K' < length ds"
      using Cons.prems(3) K by simp
    have "set (take (Suc ?K') (elapsed_times (now s1 - start_time s1) ds))
            \<subseteq> set (take (Suc ?K) (elapsed_times (now s - start_time s) (d # ds)))"
    proof -
      have "now s1 - start_time s1 = now s - start_time s + d"
        using el by simp
      then show ?thesis
        using K by auto
    qed
    with Cons.prems(4) have p4: "\<forall>t \<in> set (take (Suc ?K')
          (elapsed_times (now s1 - start_time s1) ds)). t < real_of_int (time a)"
      by blast
    obtain s' chunks where r: "send_loop a ds s1 = Returned s' ()"
        and r1: "total_sent s' = total_sent s1 + remaining_bytes s1"
        and r2: "outbox (sock s') = outbox (sock s1) @ chunks"
        and r3: "\<forall>c \<in> set chunks. length c \<le> 1000"
        and r4: "(\<Sum>c\<leftarrow>chunks. int (length c)) = remaining_bytes s1"
      using Cons.IH [OF p1 p2 p3 p4] by blast
    have "send_loop a (d # ds) s = Returned s' ()"
      using b r by simp
    moreover have "total_sent s' = total_sent s + ?r"
      using r1 ts rb by simp
    moreover have "outbox (sock s') = outbox (sock s) @ (c # chunks)"
      using r2 ob by simp
    moreover have "\<forall>x \<in> set (c # chunks). length x \<le> 1000"
      using r3 lc by auto
    moreover have "(\<Sum>x\<leftarrow>c # chunks. int (length x)) = ?r"
      using r4 lc rb by simp
    ultimately show ?thesis by blast
  qed
qed

subsection \<open>What the send loop and the end of a session preserve\<close>

lemma report_interval_cases:
  assumes "report_interval a s = Inr s'"
  shows "sock s' = sock s \<and> now s' = now s \<and> start_time s' = start_time s \<and>
         total_sent s' = total_sent s \<and> data_to_send s' = data_to_send s \<and>
         remaining_bytes s' = remaining_bytes s \<and> elapsed_time s' = elapsed_time s"
  using assms
  by (auto simp: report_interval_def split: if_splits sum.splits)

lemma loop_body_Break:
  assumes "loop_body a d s = Break s'"
  shows "elapsed_time s' = now s' - start_time s' \<and> start_time s' = start_time s \<and>
         sock s' = sock s \<and> total_sent s' = total_sent s"
  using assms
  by (auto simp: loop_body_def Let_def split: sum.splits if_splits dest!: report_interval_cases)

lemma loop_body_Continue:
  assumes "loop_body a d s = Continue s'"
  shows "start_time s' = start_time s \<and> timeout (sock s') = timeout (sock s) \<and>
         is_closed (sock s') = is_closed (sock s)"
  using assms
  by (auto simp: loop_body_def Let_def send_chunk_def sendall_def
      split: sum.splits if_splits dest!: report_interval_cases)

lemma send_loop_Returned:
  assumes "send_loop a ds s = Returned s' u"
  shows "elapsed_time s' = now s' - start_time s' \<and> start_time s' = start_time s \<and>
         timeout (sock s') = timeout (sock s) \<and> is_closed (sock s') = is_closed (sock s)"
  using assms
proof (induction ds arbitrary: s)
  case Nil
  then show ?case by simp
next
  case (Cons d ds)
  show ?case
  proof (cases "loop_body a d s")
    case (Continue s1)
    with Cons.prems have "send_loop a ds s1 = Returned s' u" by simp
    from Cons.IH [OF this] loop_body_Continue [OF Continue] show ?thesis by simp
  next
    case (Break s1)
    with Cons.prems have "s' = s1" by simp
    with loop_body_Break [OF Break] show ?thesis by simp
  next
    case (Fail err s1)
    with Cons.prems show ?thesis by simp
  qed
qed

lemma windows_append: "windows (xs @ ys) = windows xs @ windows ys"
  by (induction xs rule: windows.induct) simp_all

lemma finish_session_state:
  "case finish_session a e rl s0 of
     Returned s rl' \<Rightarrow> total_sent s = total_sent s0 \<and> outbox (sock s) = outbox (sock s0) @ [''BYE''] \<and>
        windows (printed s) = windows (printed s0) \<and> is_closed (sock s) \<and>
        timeout (sock s) = timeout (sock s0)
   | Raised err s \<Rightarrow> total_sent s = total_sent s0 \<and> outbox (sock s) = outbox (sock s0) @ [''BYE''] \<and>
        windows (printed s) = windows (printed s0)
   | Unfinished \<Rightarrow> False"
  by (auto simp: finish_session_def recv_def sendall_def close_def Let_def windows_append
      split: option.splits sum.splits prod.splits if_splits)

lemma finish_session_results:
  "finish_session a e rl s0 =
     (case finish_session a e [] s0 of
        Returned s xs \<Rightarrow> Returned s (rl @ xs)
      | Raised err s \<Rightarrow> Raised err s
      | Unfinished \<Rightarrow> Unfinished)"
  by (auto simp: finish_session_def Let_def
      split: option.splits sum.splits prod.splits if_splits)

lemma finish_session_elapsed:
  assumes "time_advances e" "elapsed_time s0 = now s0 - start_time s0"
    and "units (format a) = Some f"
  shows "\<exists>s. (finish_session a e rl s0 = Returned s rl \<and>
               \<not> (\<exists>d. reply e = Some (d, ''ACK: BYE'') \<and> d \<le> timeout (sock s0))) \<or>
             (\<exists>data rate. finish_session a e rl s0 =
                 Returned s (rl @ [(serverip a, port a, elapsed_time s, data, rate)]) \<and>
               (\<exists>d. reply e = Some (d, ''ACK: BYE'') \<and> d \<le> timeout (sock s0)) \<and>
               (\<exists>d. reply e = Some (d, ''ACK: BYE'') \<and> min_duration + d \<le> elapsed_time s) \<and>
               format_size (real_of_int (total_sent s)) (format a) = Inr data \<and>
               calculate_rate (real_of_int (total_sent s)) (elapsed_time s) = Inr rate)"
proof (cases "\<exists>d. reply e = Some (d, ''ACK: BYE'') \<and> d \<le> timeout (sock s0)")
  case False
  then show ?thesis
    by (auto simp: finish_session_def recv_def sendall_def close_def Let_def
        split: option.splits prod.splits)
next
  case True
  then obtain d where r: "reply e = Some (d, ''ACK: BYE'')" "d \<le> timeout (sock s0)"
    by blast
  with assms(1) have d: "0 \<le> d" "0 \<le> final_delay e" "0 \<le> oversleep e"
    by (auto simp: time_advances_def)
  show ?thesis
  proof (cases "elapsed_time s0 < min_duration")
    case True
    let ?el = "now s0 + (min_duration - elapsed_time s0) + oversleep e + d + final_delay e
                 - start_time s0"
    have el: "min_duration + d \<le> ?el"
      using d assms(2) by linarith
    then have nz: "?el \<noteq> 0"
      using d by (simp add: min_duration_def)
    show ?thesis
      using r True el nz assms(3)
      by (simp add: finish_session_def recv_def sendall_def close_def Let_def
          format_size_def calculate_rate_def)
  next
    case False
    let ?el = "now s0 + d + final_delay e - start_time s0"
    have el: "min_duration + d \<le> ?el"
      using d assms(2) False by linarith
    then have nz: "?el \<noteq> 0"
      using d by (simp add: min_duration_def)
    show ?thesis
      using r False el nz assms(3)
      by (simp add: finish_session_def recv_def sendall_def close_def Let_def
          format_size_def calculate_rate_def)
  qed
qed

lemma loop_body_Continue_time:
  assumes "loop_body a d s = Continue s'"
  shows "now s' - start_time s' = now s + d - start_time s \<and>
         now s + d - start_time s < real_of_int (time a)"
  using assms
  by (auto simp: loop_body_def Let_def send_chunk_def sendall_def
      split: sum.splits if_splits dest!: report_interval_cases)

text \<open>
  The loop ends: once a reading of the clock shows the duration elapsed, the loop has
  returned or raised.
\<close>

lemma send_loop_finishes:
  assumes "\<exists>t \<in> set (elapsed_times (now s - start_time s) ds). real_of_int (time a) \<le> t"
  shows "send_loop a ds s \<noteq> Unfinished"
  using assms
proof (induction ds arbitrary: s)
  case Nil
  then show ?case by simp
next
  case (Cons d ds)
  show ?case
  proof (cases "loop_body a d s")
    case (Continue s1)
    from loop_body_Continue_time [OF Continue]
    have e: "now s1 - start_time s1 = now s - start_time s + d"
        and lt: "now s - start_time s + d < real_of_int (time a)"
      by simp_all
    from Cons.prems lt
    have "\<exists>t \<in> set (elapsed_times (now s1 - start_time s1) ds). real_of_int (time a) \<le> t"
      by (auto simp: e)
    from Cons.IH [OF this] Continue show ?thesis by simp
  next
    case (Break s1)
    then show ?thesis by simp
  next
    case (Fail err s1)
    then show ?thesis by simp
  qed
qed

subsection \<open>The windows of the interval reports\<close>

lemma report_interval_fires:
  assumes "0 < interval a" "real_of_int (interval_stop s) \<le> elapsed_time s"
    and "report_interval a s = Inr s'"
  shows "last_interval_sent s' = total_sent s \<and> interval_start s' = interval_stop s \<and>
         interval_stop s' = interval_stop s + interval a \<and>
         windows (printed s') = windows (printed s) @ [(interval_start s, interval_stop s)]"
  using assms
  by (auto simp: report_interval_def print_interval_def Let_def windows_append
      split: sum.splits)

lemma report_interval_silent:
  assumes "\<not> (0 < interval a \<and> real_of_int (interval_stop s) \<le> elapsed_time s)"
  shows "report_interval a s = Inr s"
  using assms by (auto simp: report_interval_def)

lemma report_interval_inv:
  assumes "report_interval a s = Inr s'" "windows_inv a k s"
  shows "windows_inv a k s' \<or> windows_inv a (Suc k) s'"
proof (cases "0 < interval a \<and> real_of_int (interval_stop s) \<le> elapsed_time s")
  case False
  with assms show ?thesis
    by (simp add: report_interval_silent)
next
  case True
  with report_interval_fires [OF _ _ assms(1)] assms(2) have "windows_inv a (Suc k) s'"
    by (simp add: windows_inv_def algebra_simps)
  then show ?thesis ..
qed

lemma loop_body_inv:
  assumes "windows_inv a k s"
  shows "case loop_body a d s of
           Continue s' \<Rightarrow> windows_inv a k s' \<or> windows_inv a (Suc k) s'
         | Break s' \<Rightarrow> windows_inv a k s' \<or> windows_inv a (Suc k) s'
         | Fail err s' \<Rightarrow> windows_inv a k s'"
proof -
  let ?s2 = "s\<lparr>now := now s + d, elapsed_time := now s + d - start_time s\<rparr>"
  have i2: "windows_inv a k ?s2"
    using assms by (simp add: windows_inv_def)
  show ?thesis
  proof (cases "report_interval a ?s2")
    case (Inl err)
    with i2 show ?thesis
      by (simp add: loop_body_def Let_def)
  next
    case (Inr s3)
    from report_interval_inv [OF Inr i2]
    show ?thesis
      using Inr by (auto simp: loop_body_def Let_def send_chunk_def sendall_def windows_inv_def)
  qed
qed

lemma send_loop_inv:
  assumes "windows_inv a k s"
  shows "case send_loop a ds s of
           Returned s' u \<Rightarrow> (\<exists>k'. windows_inv a k' s')
         | Raised err s' \<Rightarrow> (\<exists>k'. windows_inv a k' s')
         | Unfinished \<Rightarrow> True"
  using assms
proof (induction ds arbitrary: s k)
  case Nil
  then show ?case by simp
next
  case (Cons d ds)
  show ?case
  proof (cases "loop_body a d s")
    case (Continue s1)
    with loop_body_inv [OF Cons.prems, of d] obtain k1 where "windows_inv a k1 s1"
      by auto
    from Cons.IH [OF this] Continue show ?thesis by simp
  next
    case (Break s1)
    with loop_body_inv [OF Cons.prems, of d] show ?thesis by auto
  next
    case (Fail err s1)
    with loop_body_inv [OF Cons.prems, of d] show ?thesis by auto
  qed
qed

lemma initial_session_inv: "windows_inv a 0 (initial_session a e)"
  by (simp add: windows_inv_def initial_session_def print_client_connection_def)

lemma start_session_inv: "start_session a e = Inr s1 \<Longrightarrow> windows_inv a 0 s1"
  using initial_session_inv [of a e]
  by (auto simp: start_session_def Let_def windows_inv_def split: if_splits sum.splits option.splits)

lemma windows_inv_windows:
  assumes "windows_inv a k s"
  shows "(interval a \<le> 0 \<longrightarrow> windows (printed s) = []) \<and>
         windows (printed s) =
           map (\<lambda>j. (int j * interval a, (int j + 1) * interval a)) [0..<length (windows (printed s))]"
  using assms by (auto simp: windows_inv_def)

subsection \<open>Sessions and the shared list\<close>

lemma client_connection_results:
  "client_connection a e rl =
     (case client_connection a e [] of
        Returned s xs \<Rightarrow> Returned s (rl @ xs)
      | Raised err s \<Rightarrow> Raised err s
      | Unfinished \<Rightarrow> Unfinished)"
proof (cases "start_session a e")
  case (Inl err)
  then show ?thesis by (simp add: client_connection_def)
next
  case (Inr s1)
  show ?thesis
  proof (cases "send_loop a (delays e) s1")
    case (Returned s2 u)
    with Inr finish_session_results [of a e rl s2] show ?thesis
      by (simp add: client_connection_def)
  next
    case (Raised err s2)
    with Inr show ?thesis by (simp add: client_connection_def)
  next
    case Unfinished
    with Inr show ?thesis by (simp add: client_connection_def)
  qed
qed

lemma finish_session_at_most_one:
  "finish_session a e [] s0 = Returned s xs \<Longrightarrow> length xs \<le> 1"
  by (auto simp: finish_session_def Let_def
      split: option.splits sum.splits prod.splits if_splits)

lemma appended_length: "length (appended a e) \<le> 1"
proof (cases "client_connection a e []")
  case (Returned s xs)
  then obtain s2 where "finish_session a e [] s2 = Returned s xs"
    by (auto simp: client_connection_def split: sum.splits outcome.splits)
  from finish_session_at_most_one [OF this] Returned show ?thesis
    by (simp add: appended_def)
next
  case (Raised err s)
  then show ?thesis by (simp add: appended_def)
next
  case Unfinished
  then show ?thesis by (simp add: appended_def)
qed

lemma run_sessions_eq:
  "run_sessions a es rl =
     (if \<exists>e \<in> set es. client_connection a e [] = Unfinished then None
      else Some (rl @ concat (map (appended a) es)))"
proof (induction es arbitrary: rl)
  case Nil
  then show ?case by simp
next
  case (Cons e es)
  show ?case
  proof (cases "client_connection a e []")
    case (Returned s xs)
    then have "client_connection a e rl = Returned s (rl @ xs)"
      by (subst client_connection_results) simp
    moreover have "appended a e = xs"
      using Returned by (simp add: appended_def)
    ultimately show ?thesis
      using Returned Cons.IH [of "rl @ xs"] by simp
  next
    case (Raised err s)
    then have "client_connection a e rl = Raised err s"
      by (subst client_connection_results) simp
    moreover have "appended a e = []"
      using Raised by (simp add: appended_def)
    ultimately show ?thesis
      using Raised Cons.IH [of rl] by simp
  next
    case Unfinished
    then have "client_connection a e rl = Unfinished"
      by (subst client_connection_results) simp
    with Unfinished show ?thesis by simp
  qed
qed

lemma length_concat_singletons:
  "\<forall>x \<in> set xs. length (g x) = 1 \<Longrightarrow> length (concat (map g xs)) = length xs"
  by (induction xs) simp_all

lemma length_concat_at_most:
  "\<forall>x \<in> set xs. length (g x) \<le> 1 \<Longrightarrow> length (concat (map g xs)) \<le> length xs"
  by (induction xs) (simp_all add: le_Suc_eq add.commute, fastforce)

lemma no_header_in_rows:
  "filter is_header (map (\<lambda>(ip, p, elapsed, data, rate). print_final_result ip p elapsed data rate a) rs) = []"
  by (induction rs) (auto simp: print_final_result_def)

lemma loop_body_negative_cap:
  assumes "num a \<noteq> []" "remaining_bytes s < 0"
  shows "case loop_body a d s of
           Continue s' \<Rightarrow> False
         | Break s' \<Rightarrow> sock s' = sock s \<and> total_sent s' = total_sent s
         | Fail err s' \<Rightarrow> sock s' = sock s \<and> total_sent s' = total_sent s"
proof -
  let ?s2 = "s\<lparr>now := now s + d, elapsed_time := now s + d - start_time s\<rparr>"
  show ?thesis
  proof (cases "report_interval a ?s2")
    case (Inl err)
    then show ?thesis by (simp add: loop_body_def Let_def)
  next
    case (Inr s3)
    with report_interval_cases [OF Inr] assms show ?thesis
      by (simp add: loop_body_def Let_def)
  qed
qed

subsection \<open>Accounting of a server session\<close>

lemma bytes_in_length: "bytes_in pat data \<Longrightarrow> length pat \<le> length data"
proof (induction data)
  case Nil
  then show ?case by simp
next
  case (Cons c cs)
  show ?case
  proof (cases "take (length pat) (c # cs) = pat")
    case True
    then have "length (take (length pat) (c # cs)) = length pat"
      by simp
    then show ?thesis
      by (simp add: min_def split: if_splits)
  next
    case False
    with Cons show ?thesis by simp
  qed
qed

text \<open>
  Claim C1. Whatever the chunks the server receives: while the chunks are not empty
  and do not contain \<open>BYE\<close>, each is credited with its full length and receiving
  goes on; at the first chunk that contains \<open>BYE\<close> the server sends the eight
  bytes \<open>ACK: BYE\<close>, credits the length of that chunk minus 3, and reads no
  further, so that the total is the sum of the lengths of the chunks before plus the
  length of that chunk minus 3. When no chunk contains \<open>BYE\<close> nothing is sent.
\<close>

theorem handle_client_accounting:
  "(\<forall>pre bye rest.
      (\<forall>c \<in> set pre. c \<noteq> [] \<and> \<not> bytes_in ''BYE'' c) \<and> bytes_in ''BYE'' bye \<longrightarrow>
      (let h = fst (handle_client address (pre @ bye # rest) a t)
       in sent h = [''ACK: BYE''] \<and> length ''ACK: BYE'' = 8 \<and>
          total_received h = (\<Sum>c\<leftarrow>pre. int (length c)) + (int (length bye) - 3) \<and>
          3 \<le> length bye \<and> unread h = rest \<and> conn_closed h)) \<and>
   (\<forall>chunks.
      (\<forall>c \<in> set chunks. \<not> bytes_in ''BYE'' c) \<longrightarrow>
      (let h = fst (handle_client address chunks a t)
       in sent h = [] \<and>
          total_received h = (\<Sum>c\<leftarrow>takeWhile (\<lambda>c. c \<noteq> []) chunks. int (length c)) \<and>
          conn_closed h))"
proof (intro conjI allI impI)
  fix pre bye rest
  assume h: "(\<forall>c \<in> set pre. c \<noteq> [] \<and> \<not> bytes_in ''BYE'' c) \<and> bytes_in ''BYE'' bye"
  then have "3 \<le> length bye"
    using bytes_in_length [of "''BYE''" bye] by simp
  with h show "let h = fst (handle_client address (pre @ bye # rest) a t)
       in sent h = [''ACK: BYE''] \<and> length ''ACK: BYE'' = 8 \<and>
          total_received h = (\<Sum>c\<leftarrow>pre. int (length c)) + (int (length bye) - 3) \<and>
          3 \<le> length bye \<and> unread h = rest \<and> conn_closed h"
    by (simp add: handle_client_def receive_loop_sentinel Let_def)
next
  fix chunks
  assume "\<forall>c \<in> set chunks. \<not> bytes_in ''BYE'' c"
  then show "let h = fst (handle_client address chunks a t)
       in sent h = [] \<and>
          total_received h = (\<Sum>c\<leftarrow>takeWhile (\<lambda>c. c \<noteq> []) chunks. int (length c)) \<and>
          conn_closed h"
    by (simp add: handle_client_def receive_loop_no_sentinel Let_def)
qed

theorem handle_client_accounting_witness:
  "(let h = fst (handle_client (''10.0.0.1'', 40000) ([''000'', ''0000''] @ ''00BYE'' # [''11''])
              \<lparr>server = True, bind = ''10.0.0.2'', port = 8088, format = ''MB'', client = False,
               serverip = [], time = 25, interval = 0, parallel = 1, num = []\<rparr> 2)
    in sent h = [''ACK: BYE''] \<and> total_received h = 9 \<and> unread h = [''11''] \<and> conn_closed h) \<and>
   (let h = fst (handle_client (''10.0.0.1'', 40000) [''000'', [], ''0000'']
              \<lparr>server = True, bind = ''10.0.0.2'', port = 8088, format = ''MB'', client = False,
               serverip = [], time = 25, interval = 0, parallel = 1, num = []\<rparr> 2)
    in sent h = [] \<and> total_received h = 3 \<and> conn_closed h)"
proof -
  have h1: "\<forall>c \<in> set [''000'', ''0000'']. c \<noteq> [] \<and> \<not> bytes_in ''BYE'' c"
    by simp
  have h2: "bytes_in ''BYE'' ''00BYE''"
    by simp
  have h3: "\<forall>c \<in> set [''000'', [], ''0000'']. \<not> bytes_in ''BYE'' c"
    by simp
  note th = handle_client_accounting [of "(''10.0.0.1'', 40000)"
      "\<lparr>server = True, bind = ''10.0.0.2'', port = 8088, format = ''MB'', client = False,
        serverip = [], time = 25, interval = 0, parallel = 1, num = []\<rparr>" 2]
  note a = th [THEN conjunct1, THEN spec [of _ "[''000'', ''0000'']"],
      THEN spec [of _ "''00BYE''"], THEN spec [of _ "[''11'']"], THEN mp, OF conjI [OF h1 h2]]
  note b = th [THEN conjunct2, THEN spec [of _ "[''000'', [], ''0000'']"], THEN mp, OF h3]
  from a b show ?thesis
    by (simp add: Let_def)
qed

subsection \<open>The byte cap\<close>

lemma sum_take_le:
  "(\<Sum>c\<leftarrow>take k chunks. int (length c)) \<le> (\<Sum>c\<leftarrow>chunks. int (length c))"
proof -
  have "(\<Sum>c\<leftarrow>chunks. int (length c)) =
          (\<Sum>c\<leftarrow>take k chunks. int (length c)) + (\<Sum>c\<leftarrow>drop k chunks. int (length c))"
    by (metis append_take_drop_id map_append sum_list_append)
  moreover have "0 \<le> (\<Sum>c\<leftarrow>drop k chunks. int (length c))"
    by (rule sum_list_nonneg) auto
  ultimately show ?thesis by linarith
qed

lemma start_session_cap:
  assumes "parse_num_bytes (num a) = Inr (Some N)"
  shows "num a \<noteq> [] \<and> start_session a e = Inr ((initial_session a e)\<lparr>remaining_bytes := N\<rparr>)"
proof -
  have "num a \<noteq> []"
    using assms by (auto simp: parse_num_bytes_def)
  with assms show ?thesis
    by (simp add: start_session_def)
qed

lemma client_connection_sent:
  assumes "start_session a e = Inr s1" "send_loop a (delays e) s1 = Returned s2 u"
  shows "case client_connection a e rl of
           Returned s rl' \<Rightarrow> total_sent s = total_sent s2 \<and>
             outbox (sock s) = outbox (sock s2) @ [''BYE'']
         | Raised err s \<Rightarrow> total_sent s = total_sent s2 \<and>
             outbox (sock s) = outbox (sock s2) @ [''BYE'']
         | Unfinished \<Rightarrow> False"
  using assms finish_session_state [where a = a and e = e and rl = rl and ?s0.0 = s2]
  by (auto simp: client_connection_def split: outcome.splits)

text \<open>
  Claim C2. When \<open>args.num\<close> parses to a byte cap \<open>N \<ge> 0\<close> and the duration has not
  elapsed at any of the readings of the clock that the loop makes (the loop makes
  one for each chunk of at most 1000 bytes and one more), the send loop returns,
  having sent chunks of at most \<open>BUFFER_SIZE\<close> bytes whose lengths add up to exactly
  \<open>N\<close>, no prefix of them exceeding \<open>N\<close>; \<open>total_sent\<close> is \<open>N\<close>, and all the session
  sends after them is the sentinel.
\<close>

theorem byte_cap_exact:
  assumes "parse_num_bytes (num a) = Inr (Some N)" and "0 \<le> N"
    and "units (format a) = Some f"
    and "nat ((N + 999) div 1000) < length (delays e)"
    and "\<forall>t \<in> set (take (Suc (nat ((N + 999) div 1000))) (elapsed_times 0 (delays e))).
           t < real_of_int (time a)"
  shows "\<exists>s1 s2 chunks.
           start_session a e = Inr s1 \<and> send_loop a (delays e) s1 = Returned s2 () \<and>
           total_sent s2 = N \<and> outbox (sock s2) = chunks \<and>
           (\<forall>c \<in> set chunks. length c \<le> BUFFER_SIZE) \<and>
           (\<Sum>c\<leftarrow>chunks. int (length c)) = N \<and>
           (\<forall>k. (\<Sum>c\<leftarrow>take k chunks. int (length c)) \<le> N) \<and>
           (case client_connection a e rl of
              Returned s rl' \<Rightarrow> total_sent s = N \<and> outbox (sock s) = chunks @ [''BYE'']
            | Raised err s \<Rightarrow> total_sent s = N \<and> outbox (sock s) = chunks @ [''BYE'']
            | Unfinished \<Rightarrow> False)"
proof -
  let ?s1 = "(initial_session a e)\<lparr>remaining_bytes := N\<rparr>"
  from start_session_cap [OF assms(1)]
  have n: "num a \<noteq> []" and st: "start_session a e = Inr ?s1"
    by auto
  have i: "remaining_bytes ?s1 = N" "now ?s1 - start_time ?s1 = 0" "total_sent ?s1 = 0"
      "outbox (sock ?s1) = []" "length (data_to_send ?s1) = 1000"
    by (simp_all add: initial_session_def BUFFER_SIZE_def)
  obtain s2 chunks where l: "send_loop a (delays e) ?s1 = Returned s2 ()"
      and t: "total_sent s2 = N" and o: "outbox (sock s2) = chunks"
      and c: "\<forall>c \<in> set chunks. length c \<le> 1000"
      and sm: "(\<Sum>c\<leftarrow>chunks. int (length c)) = N"
    using send_loop_cap [OF n assms(3), of ?s1 "delays e"] assms(2,4,5) i
    by auto
  have p: "\<forall>k. (\<Sum>c\<leftarrow>take k chunks. int (length c)) \<le> N"
    using sum_take_le [of _ chunks] sm by simp
  have f: "case client_connection a e rl of
              Returned s rl' \<Rightarrow> total_sent s = N \<and> outbox (sock s) = chunks @ [''BYE'']
            | Raised err s \<Rightarrow> total_sent s = N \<and> outbox (sock s) = chunks @ [''BYE'']
            | Unfinished \<Rightarrow> False"
    using client_connection_sent [OF st l, of rl] t o by (auto split: outcome.splits)
  from st l t o c sm p f show ?thesis
    by (intro exI [of _ ?s1] exI [of _ s2] exI [of _ chunks])
      (auto simp: BUFFER_SIZE_def split: outcome.splits)
qed

theorem byte_cap_exact_witness:
  "\<exists>s1 s2 chunks.
     start_session
       \<lparr>server = False, bind = ''10.0.0.2'', port = 8088, format = ''MB'', client = True,
        serverip = ''10.0.0.2'', time = 25, interval = 0, parallel = 1, num = ''5000 B''\<rparr>
       \<lparr>clock = 100, delays = [1, 1, 1, 1, 1, 1, 1], oversleep = 0,
        reply = Some (1, ''ACK: BYE''), final_delay = 0, sockname = (''10.0.0.1'', 40000)\<rparr>
       = Inr s1 \<and>
     send_loop
       \<lparr>server = False, bind = ''10.0.0.2'', port = 8088, format = ''MB'', client = True,
        serverip = ''10.0.0.2'', time = 25, interval = 0, parallel = 1, num = ''5000 B''\<rparr>
       [1, 1, 1, 1, 1, 1, 1] s1 = Returned s2 () \<and>
     total_sent s2 = 5000 \<and> outbox (sock s2) = chunks \<and>
     (\<Sum>c\<leftarrow>chunks. int (length c)) = 5000"
proof -
  let ?a = "\<lparr>server = False, bind = ''10.0.0.2'', port = 8088, format = ''MB'', client = True,
        serverip = ''10.0.0.2'', time = 25, interval = 0, parallel = 1, num = ''5000 B''\<rparr>"
  let ?e = "\<lparr>clock = 100, delays = [1, 1, 1, 1, 1, 1, 1], oversleep = 0,
        reply = Some (1, ''ACK: BYE''), final_delay = 0, sockname = (''10.0.0.1'', 40000)\<rparr>"
  have p: "parse_num_bytes ''5000 B'' = Inr (Some 5000)"
    by code_simp
  have h1: "parse_num_bytes (num ?a) = Inr (Some 5000)"
    using p by simp
  have h2: "(0::int) \<le> 5000"
    by simp
  have h3: "units (format ?a) = Some 1000000"
    by (simp add: units_MB)
  have h4: "nat ((5000 + 999) div 1000) < length (delays ?e)"
    by simp
  have h5: "\<forall>t \<in> set (take (Suc (nat ((5000 + 999) div 1000))) (elapsed_times 0 (delays ?e))).
           t < real_of_int (time ?a)"
    by (simp add: eval_nat_numeral)
  from byte_cap_exact [OF h1 h2 h3 h4 h5, of "[]"] show ?thesis
    by auto
qed

subsection \<open>The acknowledgement\<close>

lemma start_session_sock:
  assumes "start_session a e = Inr s1"
  shows "timeout (sock s1) = 5 \<and> \<not> is_closed (sock s1)"
  using assms
  by (auto simp: start_session_def initial_session_def Let_def
      split: if_splits sum.splits option.splits)




subsection \<open>The interval reports\<close>

lemma client_connection_inv:
  "case client_connection a e rl of
     Returned s rl' \<Rightarrow> (\<exists>k. windows (printed s) =
         map (\<lambda>j. (int j * interval a, (int j + 1) * interval a)) [0..<k] \<and> (k = 0 \<or> 0 < interval a))
   | Raised err s \<Rightarrow> (\<exists>k. windows (printed s) =
         map (\<lambda>j. (int j * interval a, (int j + 1) * interval a)) [0..<k] \<and> (k = 0 \<or> 0 < interval a))
   | Unfinished \<Rightarrow> True"
proof (cases "start_session a e")
  case (Inl err)
  with initial_session_inv [of a e] show ?thesis
    by (auto simp: client_connection_def windows_inv_def)
next
  case (Inr s1)
  note i1 = start_session_inv [OF Inr]
  show ?thesis
  proof (cases "send_loop a (delays e) s1")
    case (Returned s2 u)
    with send_loop_inv [OF i1, of "delays e"] obtain k where k: "windows_inv a k s2"
      by auto
    have cc: "client_connection a e rl = finish_session a e rl s2"
      using Inr Returned by (simp add: client_connection_def)
    from finish_session_state [where a = a and e = e and rl = rl and ?s0.0 = s2] k
    show ?thesis
      unfolding cc by (auto simp: windows_inv_def split: outcome.splits)
  next
    case (Raised err s2)
    with send_loop_inv [OF i1, of "delays e"] obtain k where k: "windows_inv a k s2"
      by auto
    with Inr Raised show ?thesis
      by (auto simp: client_connection_def windows_inv_def)
  next
    case Unfinished
    with Inr show ?thesis
      by (simp add: client_connection_def)
  qed
qed

text \<open>
  Claim C7. A report fires in a pass of the loop only when the interval length is
  positive and the elapsed time has reached \<open>interval_stop\<close>; a report that fires
  prints the window from \<open>interval_start\<close> to \<open>interval_stop\<close>, sets the marker
  \<open>last_interval_sent\<close> to the current total, and moves the window on by one
  interval length. So the windows printed so far are always the first multiples of
  the interval length, one after the other without gap or overlap: this holds when
  the session starts and after every pass of the loop, and for the lines a session
  has printed when it ends; with an interval length of 0 no interval row is printed.
\<close>

theorem interval_reports:
  "(\<forall>s s'. report_interval a s = Inr s' \<longrightarrow>
      (if 0 < interval a \<and> real_of_int (interval_stop s) \<le> elapsed_time s
       then last_interval_sent s' = total_sent s \<and> interval_start s' = interval_stop s \<and>
            interval_stop s' = interval_stop s + interval a \<and>
            windows (printed s') = windows (printed s) @ [(interval_start s, interval_stop s)]
       else s' = s)) \<and>
   windows_inv a 0 (initial_session a e) \<and>
   (\<forall>k s d. windows_inv a k s \<longrightarrow>
      (case loop_body a d s of
         Continue s' \<Rightarrow> windows_inv a k s' \<or> windows_inv a (Suc k) s'
       | Break s' \<Rightarrow> windows_inv a k s' \<or> windows_inv a (Suc k) s'
       | Fail err s' \<Rightarrow> windows_inv a k s')) \<and>
   (case client_connection a e rl of
      Returned s rl' \<Rightarrow>
        (interval a \<le> 0 \<longrightarrow> windows (printed s) = []) \<and>
        windows (printed s) =
          map (\<lambda>j. (int j * interval a, (int j + 1) * interval a))
            [0..<length (windows (printed s))]
    | Raised err s \<Rightarrow>
        (interval a \<le> 0 \<longrightarrow> windows (printed s) = []) \<and>
        windows (printed s) =
          map (\<lambda>j. (int j * interval a, (int j + 1) * interval a))
            [0..<length (windows (printed s))]
    | Unfinished \<Rightarrow> True)"
proof (intro conjI allI impI)
  fix s s'
  assume r: "report_interval a s = Inr s'"
  show "if 0 < interval a \<and> real_of_int (interval_stop s) \<le> elapsed_time s
       then last_interval_sent s' = total_sent s \<and> interval_start s' = interval_stop s \<and>
            interval_stop s' = interval_stop s + interval a \<and>
            windows (printed s') = windows (printed s) @ [(interval_start s, interval_stop s)]
       else s' = s"
  proof (cases "0 < interval a \<and> real_of_int (interval_stop s) \<le> elapsed_time s")
    case True
    with report_interval_fires [OF _ _ r] show ?thesis by simp
  next
    case False
    with report_interval_silent [OF False] r show ?thesis by simp
  qed
next
  show "windows_inv a 0 (initial_session a e)"
    by (rule initial_session_inv)
next
  fix k s d
  assume "windows_inv a k s"
  then show "case loop_body a d s of
         Continue s' \<Rightarrow> windows_inv a k s' \<or> windows_inv a (Suc k) s'
       | Break s' \<Rightarrow> windows_inv a k s' \<or> windows_inv a (Suc k) s'
       | Fail err s' \<Rightarrow> windows_inv a k s'"
    by (rule loop_body_inv)
next
  show "case client_connection a e rl of
      Returned s rl' \<Rightarrow>
        (interval a \<le> 0 \<longrightarrow> windows (printed s) = []) \<and>
        windows (printed s) =
          map (\<lambda>j. (int j * interval a, (int j + 1) * interval a))
            [0..<length (windows (printed s))]
    | Raised err s \<Rightarrow>
        (interval a \<le> 0 \<longrightarrow> windows (printed s) = []) \<and>
        windows (printed s) =
          map (\<lambda>j. (int j * interval a, (int j + 1) * interval a))
            [0..<length (windows (printed s))]
    | Unfinished \<Rightarrow> True"
    using client_connection_inv [of a e rl]
    by (auto split: outcome.splits)
qed


theorem interval_reports_witness:
  "(\<exists>s'. report_interval
       \<lparr>server = False, bind = ''10.0.0.2'', port = 8088, format = ''MB'', client = True,
        serverip = ''10.0.0.2'', time = 1, interval = 1, parallel = 1, num = []\<rparr>
       ((initial_session
          \<lparr>server = False, bind = ''10.0.0.2'', port = 8088, format = ''MB'', client = True,
           serverip = ''10.0.0.2'', time = 1, interval = 1, parallel = 1, num = []\<rparr>
          \<lparr>clock = 100, delays = [3 / 2], oversleep = 0,
           reply = Some (1, ''ACK: BYE''), final_delay = 0, sockname = (''10.0.0.1'', 40000)\<rparr>)
        \<lparr>elapsed_time := 3 / 2\<rparr>) = Inr s' \<and>
      last_interval_sent s' = 0 \<and> interval_start s' = 1 \<and> interval_stop s' = 2) \<and>
   (\<exists>s rl'. client_connection
       \<lparr>server = False, bind = ''10.0.0.2'', port = 8088, format = ''MB'', client = True,
        serverip = ''10.0.0.2'', time = 1, interval = 1, parallel = 1, num = []\<rparr>
       \<lparr>clock = 100, delays = [3 / 2], oversleep = 0,
        reply = Some (1, ''ACK: BYE''), final_delay = 0, sockname = (''10.0.0.1'', 40000)\<rparr>
       [] = Returned s rl' \<and> windows (printed s) = [(0, 1)])"
proof -
  let ?a = "\<lparr>server = False, bind = ''10.0.0.2'', port = 8088, format = ''MB'', client = True,
        serverip = ''10.0.0.2'', time = 1, interval = 1, parallel = 1, num = []\<rparr>"
  let ?e = "\<lparr>clock = 100, delays = [3 / 2], oversleep = 0,
        reply = Some (1, ''ACK: BYE''), final_delay = 0, sockname = (''10.0.0.1'', 40000)\<rparr>"
  let ?s = "(initial_session ?a ?e)\<lparr>elapsed_time := 3 / 2\<rparr>"
  note th = interval_reports [of ?a ?e "[]"]
  have f: "0 < interval ?a \<and> real_of_int (interval_stop ?s) \<le> elapsed_time ?s"
    by (simp add: initial_session_def)
  have "\<exists>s'. report_interval ?a ?s = Inr s'"
    by (simp add: report_interval_def print_interval_def format_size_def units_MB
        calculate_rate_def initial_session_def)
  then obtain s' where r: "report_interval ?a ?s = Inr s'"
    by blast
  from th [THEN conjunct1, THEN spec [of _ ?s], THEN spec [of _ s'], THEN mp, OF r] f
  have "last_interval_sent s' = total_sent ?s \<and> interval_start s' = interval_stop ?s \<and>
        interval_stop s' = interval_stop ?s + interval ?a"
    by simp
  then have a: "last_interval_sent s' = 0 \<and> interval_start s' = 1 \<and> interval_stop s' = 2"
    by (simp add: initial_session_def)
  have "\<exists>s rl'. client_connection ?a ?e [] = Returned s rl' \<and> length (windows (printed s)) = 1"
    by (simp add: client_connection_def start_session_def loop_body_def report_interval_def
        print_interval_def initial_session_def finish_session_def recv_def sendall_def
        close_def Let_def min_duration_def format_size_def units_MB calculate_rate_def
        print_client_connection_def windows_append)
  then obtain s rl' where c: "client_connection ?a ?e [] = Returned s rl'"
      and l: "length (windows (printed s)) = 1"
    by blast
  from th [THEN conjunct2, THEN conjunct2, THEN conjunct2] c l
  have "windows (printed s) = [(0, 1)]"
    by simp
  with r a c show ?thesis
    by blast
qed

subsection \<open>A cap without a sign check\<close>

lemma client_connection_negative_cap:
  assumes "parse_num_bytes (num a) = Inr (Some n)" "n < 0" "delays e \<noteq> []"
  shows "case client_connection a e rl of
           Returned s rl' \<Rightarrow> total_sent s = 0 \<and> outbox (sock s) = [''BYE'']
         | Raised err s \<Rightarrow> total_sent s = 0 \<and> (outbox (sock s) = [] \<or> outbox (sock s) = [''BYE''])
         | Unfinished \<Rightarrow> False"
proof -
  let ?s1 = "(initial_session a e)\<lparr>remaining_bytes := n\<rparr>"
  from start_session_cap [OF assms(1)]
  have nm: "num a \<noteq> []" and st: "start_session a e = Inr ?s1"
    by auto
  from assms(3) obtain d ds where ds: "delays e = d # ds"
    by (cases "delays e") auto
  have i: "total_sent ?s1 = 0" "outbox (sock ?s1) = []" "remaining_bytes ?s1 < 0"
    using assms(2) by (simp_all add: initial_session_def)
  note b = loop_body_negative_cap [OF nm i(3), of d]
  show ?thesis
  proof (cases "loop_body a d ?s1")
    case (Continue s')
    with b show ?thesis by simp
  next
    case (Break s')
    with b i have s': "total_sent s' = 0" "outbox (sock s') = []"
      by auto
    have l: "send_loop a (delays e) ?s1 = Returned s' ()"
      using Break ds by simp
    from client_connection_sent [OF st l, of rl] s' show ?thesis
      by (auto split: outcome.splits)
  next
    case (Fail err s')
    with b i have s': "total_sent s' = 0" "outbox (sock s') = []"
      by auto
    have "client_connection a e rl = Raised err s'"
      using Fail ds st by (simp add: client_connection_def)
    with s' show ?thesis by simp
  qed
qed

text \<open>
  Claim C9, as the code has it. \<open>parse_num_bytes\<close> checks no sign: for every integer
  \<open>n\<close>, negative ones included, its decimal numeral followed by \<open>B\<close>, \<open>KB\<close> or \<open>MB\<close>
  parses to \<open>n\<close> times 1, 1000 or 1000000, so that \<open>-5 B\<close> gives -5 and \<open>-5 KB\<close>
  gives -5000. A session whose cap parses to a negative number leaves its send loop in
  the first pass: it has sent no payload byte when it ends, only the sentinel.
\<close>

theorem parse_num_bytes_negative:
  "(\<forall>n. parse_num_bytes (str_int n @ '' B'') = Inr (Some n) \<and>
        parse_num_bytes (str_int n @ '' KB'') = Inr (Some (n * 1000)) \<and>
        parse_num_bytes (str_int n @ '' MB'') = Inr (Some (n * 1000000))) \<and>
   parse_num_bytes ''-5 B'' = Inr (Some (- 5)) \<and>
   parse_num_bytes ''-5 KB'' = Inr (Some (- 5000)) \<and>
   (\<forall>a e rl n. parse_num_bytes (num a) = Inr (Some n) \<and> n < 0 \<and> delays e \<noteq> [] \<longrightarrow>
      (case client_connection a e rl of
         Returned s rl' \<Rightarrow> total_sent s = 0 \<and> outbox (sock s) = [''BYE'']
       | Raised err s \<Rightarrow>
           total_sent s = 0 \<and> (outbox (sock s) = [] \<or> outbox (sock s) = [''BYE''])
       | Unfinished \<Rightarrow> False))"
proof (intro conjI allI impI)
  fix n
  show "parse_num_bytes (str_int n @ '' B'') = Inr (Some n)"
    using parse_num_bytes_str_int [OF units_B, of n] by simp
  show "parse_num_bytes (str_int n @ '' KB'') = Inr (Some (n * 1000))"
    using parse_num_bytes_str_int [OF units_KB, of n] by simp
  show "parse_num_bytes (str_int n @ '' MB'') = Inr (Some (n * 1000000))"
    using parse_num_bytes_str_int [OF units_MB, of n] by simp
next
  show "parse_num_bytes ''-5 B'' = Inr (Some (- 5))"
    by code_simp
next
  show "parse_num_bytes ''-5 KB'' = Inr (Some (- 5000))"
    by code_simp
next
  fix a :: args and e :: env and rl :: "result list" and n :: int
  assume "parse_num_bytes (num a) = Inr (Some n) \<and> n < 0 \<and> delays e \<noteq> []"
  then show "case client_connection a e rl of
         Returned s rl' \<Rightarrow> total_sent s = 0 \<and> outbox (sock s) = [''BYE'']
       | Raised err s \<Rightarrow>
           total_sent s = 0 \<and> (outbox (sock s) = [] \<or> outbox (sock s) = [''BYE''])
       | Unfinished \<Rightarrow> False"
    using client_connection_negative_cap by blast
qed

theorem parse_num_bytes_negative_witness:
  "case client_connection
       \<lparr>server = False, bind = ''10.0.0.2'', port = 8088, format = ''MB'', client = True,
        serverip = ''10.0.0.2'', time = 25, interval = 0, parallel = 1, num = ''-5 KB''\<rparr>
       \<lparr>clock = 100, delays = [1 / 100], oversleep = 0,
        reply = Some (1, ''ACK: BYE''), final_delay = 0, sockname = (''10.0.0.1'', 40000)\<rparr>
       [] of
     Returned s rl' \<Rightarrow> total_sent s = 0 \<and> outbox (sock s) = [''BYE'']
   | Raised err s \<Rightarrow> total_sent s = 0 \<and> (outbox (sock s) = [] \<or> outbox (sock s) = [''BYE''])
   | Unfinished \<Rightarrow> False"
proof -
  let ?a = "\<lparr>server = False, bind = ''10.0.0.2'', port = 8088, format = ''MB'', client = True,
        serverip = ''10.0.0.2'', time = 25, interval = 0, parallel = 1, num = ''-5 KB''\<rparr>"
  let ?e = "\<lparr>clock = 100, delays = [1 / 100], oversleep = 0,
        reply = Some (1, ''ACK: BYE''), final_delay = 0, sockname = (''10.0.0.1'', 40000)\<rparr>"
  have p: "parse_num_bytes ''-5 KB'' = Inr (Some (- 5000))"
    by code_simp
  have h: "parse_num_bytes (num ?a) = Inr (Some (- 5000)) \<and> (- 5000 :: int) < 0 \<and> delays ?e \<noteq> []"
    using p by simp
  from parse_num_bytes_negative [THEN conjunct2, THEN conjunct2, THEN conjunct2,
      THEN spec [of _ ?a], THEN spec [of _ ?e], THEN spec [of _ "[]"],
      THEN spec [of _ "- 5000"], THEN mp, OF h]
  show ?thesis .
qed

text \<open>
  The example of the claim as it is written fails: \<open>-5 B\<close> is scaled by 1.
\<close>

theorem parse_num_bytes_negative_counterexample:
  "parse_num_bytes ''-5 B'' = Inr (Some (- 5)) \<and>
   parse_num_bytes ''-5 B'' \<noteq> Inr (Some (- 5000))"
proof -
  have "parse_num_bytes ''-5 B'' = Inr (Some (- 5))"
    by code_simp
  then show ?thesis by simp
qed

subsection \<open>The exit status\<close>

text \<open>
  Claim C4. \<open>main\<close> prints an error and calls \<open>sys.exit(1)\<close> when neither mode is
  selected. In client mode with a duration that is not positive it prints an error
  and returns: no \<open>sys.exit\<close> is reached, and the exit status is 0. The exit status
  is 1 when neither mode is selected and 0 in every other case.
\<close>

theorem main_exit_status:
  "exit_status (main a) = (if \<not> server a \<and> \<not> client a then 1 else 0) \<and>
   main (a\<lparr>server := False, client := False\<rparr>) =
     [Print (Line ''Error: you must run either in server or client mode''), SysExit 1] \<and>
   main (a\<lparr>server := False, client := True, time := 0\<rparr>) =
     [Print (Line ''Error: the -t (time) operation must be greater that 0.'')] \<and>
   exit_status (main (a\<lparr>server := False, client := True, time := 0\<rparr>)) = 0 \<and>
   main (a\<lparr>server := True, time := 0\<rparr>) = [Call_server_mode]"
  by (simp add: main_def)

subsection \<open>The floor of the elapsed time\<close>













subsection \<open>The orchestrator\<close>

lemma finish_session_no_ack:
  assumes "\<not> (\<exists>d. reply e = Some (d, ''ACK: BYE'') \<and> d \<le> timeout (sock s0))"
    and "finish_session a e rl s0 = Returned s rl'"
  shows "rl' = rl"
  using assms
  by (auto simp: finish_session_def recv_def sendall_def Let_def
      split: option.splits prod.splits if_splits sum.splits)

lemma appended_failed:
  assumes "\<not> (\<exists>d. reply e = Some (d, ''ACK: BYE'') \<and> d \<le> 5)"
  shows "appended a e = []"
proof (cases "client_connection a e []")
  case (Returned s xs)
  then obtain s1 s2 u where st: "start_session a e = Inr s1"
      and l: "send_loop a (delays e) s1 = Returned s2 u"
      and fin: "finish_session a e [] s2 = Returned s xs"
    by (auto simp: client_connection_def split: sum.splits outcome.splits)
  from send_loop_Returned [OF l] start_session_sock [OF st] have "timeout (sock s2) = 5"
    by simp
  with assms have "\<not> (\<exists>d. reply e = Some (d, ''ACK: BYE'') \<and> d \<le> timeout (sock s2))"
    by simp
  from finish_session_no_ack [OF this fin] Returned show ?thesis
    by (simp add: appended_def)
next
  case (Raised err s)
  then show ?thesis by (simp add: appended_def)
next
  case Unfinished
  then show ?thesis by (simp add: appended_def)
qed

lemma appended_success:
  assumes "units (format a) = Some f" "time_advances e"
    and "start_session a e = Inr s1" "send_loop a (delays e) s1 = Returned s2 u"
    and "reply e = Some (d, ''ACK: BYE'')" "d \<le> 5"
  shows "\<exists>elapsed data rate. appended a e = [(serverip a, port a, elapsed, data, rate)]"
proof -
  from send_loop_Returned [OF assms(4)] start_session_sock [OF assms(3)]
  have el: "elapsed_time s2 = now s2 - start_time s2" and to: "timeout (sock s2) = 5"
    by auto
  have cc: "client_connection a e [] = finish_session a e [] s2"
    using assms(3,4) by (simp add: client_connection_def)
  from finish_session_elapsed [OF assms(2) el assms(1), of "[]"] assms(5,6) to
  obtain s data rate where
    "finish_session a e [] s2 = Returned s [(serverip a, port a, elapsed_time s, data, rate)]"
    by auto
  with cc show ?thesis
    by (simp add: appended_def)
qed


text \<open>
  Claim C5. The orchestrator runs exactly the \<open>parallel\<close> processes of
  \<open>range(args.parallel)\<close>, each once, and does not get past the joins while one of
  them has not ended. When all have ended, the shared list holds, in the order in which
  the sessions ended, what each of them appended. That is at most one result per
  session: none for a session whose reply did not arrive within 5 seconds or was not
  \<open>ACK: BYE\<close>, and exactly one, carrying the server's address and port, for a session
  that left its send loop and received \<open>ACK: BYE\<close> in time (its display unit being one
  of \<open>B\<close>, \<open>KB\<close>, \<open>MB\<close> and time not running backwards). So the list has at most
  \<open>parallel\<close> entries, and exactly \<open>parallel\<close> when every session succeeded. What
  the orchestrator prints is the header row, once, followed by one final row for each
  entry of the list, in the order of the list (after one blank line when \<open>parallel\<close>
  is more than 1).
\<close>

theorem orchestrator_aggregation:
  "(create_parallel_connections a session_env rank = None \<longleftrightarrow>
      (\<exists>i < nat (parallel a). client_connection a (session_env i) [] = Unfinished)) \<and>
   (\<forall>results_list out.
      create_parallel_connections a session_env rank = Some (results_list, out) \<longrightarrow>
      (let sessions = sort_key rank [0..<nat (parallel a)]
       in length sessions = nat (parallel a) \<and> distinct sessions \<and>
          set sessions = {0..<nat (parallel a)} \<and>
          results_list = concat (map (\<lambda>i. appended a (session_env i)) sessions)) \<and>
      length results_list \<le> nat (parallel a) \<and>
      ((\<forall>i < nat (parallel a). \<exists>f s1 s2 d.
           units (format a) = Some f \<and> time_advances (session_env i) \<and>
           start_session a (session_env i) = Inr s1 \<and>
           send_loop a (delays (session_env i)) s1 = Returned s2 () \<and>
           reply (session_env i) = Some (d, ''ACK: BYE'') \<and> d \<le> 5)
         \<longrightarrow> length results_list = nat (parallel a)) \<and>
      out = (if 1 < parallel a then [Line ''\<newline>''] else []) @
            [Header ''ID'' ''Interval'' (if server a then ''Received'' else ''Transfer'')
               (if server a then ''Rate\<newline>'' else ''Bandwidth\<newline>'')] @
            map (\<lambda>(ip, p, elapsed, data, rate).
                   FinalRow (ip @ '':'' @ str_int p) elapsed data (format a) rate)
              results_list \<and>
      length (filter is_header out) = 1) \<and>
   (\<forall>e. length (appended a e) \<le> 1) \<and>
   (\<forall>e. \<not> (\<exists>d. reply e = Some (d, ''ACK: BYE'') \<and> d \<le> 5) \<longrightarrow> appended a e = []) \<and>
   (\<forall>e f s1 s2 d.
      units (format a) = Some f \<and> time_advances e \<and> start_session a e = Inr s1 \<and>
      send_loop a (delays e) s1 = Returned s2 () \<and>
      reply e = Some (d, ''ACK: BYE'') \<and> d \<le> 5 \<longrightarrow>
      (\<exists>elapsed data rate. appended a e = [(serverip a, port a, elapsed, data, rate)]))"
proof -
  let ?n = "nat (parallel a)"
  let ?sessions = "sort_key rank [0..<?n]"
  let ?rl = "concat (map (\<lambda>i. appended a (session_env i)) ?sessions)"
  let ?out = "\<lambda>rl. (if 1 < parallel a then [Line ''\<newline>''] else []) @
            [Header ''ID'' ''Interval'' (if server a then ''Received'' else ''Transfer'')
               (if server a then ''Rate\<newline>'' else ''Bandwidth\<newline>'')] @
            map (\<lambda>(ip, p, elapsed, data, rate).
                   FinalRow (ip @ '':'' @ str_int p) elapsed data (format a) rate) rl"
  have s: "length ?sessions = ?n" "distinct ?sessions" "set ?sessions = {0..<?n}"
    by simp_all
  have un: "(\<exists>e \<in> set (map session_env ?sessions). client_connection a e [] = Unfinished)
              \<longleftrightarrow> (\<exists>i < ?n. client_connection a (session_env i) [] = Unfinished)"
    by auto
  have run: "run_sessions a (map session_env ?sessions) [] =
          (if \<exists>i < ?n. client_connection a (session_env i) [] = Unfinished then None
           else Some ?rl)"
    unfolding run_sessions_eq un by (simp add: comp_def)
  have rows: "map (\<lambda>(ip, p, elapsed, data, rate). print_final_result ip p elapsed data rate a) rl
        = map (\<lambda>(ip, p, elapsed, data, rate).
                 FinalRow (ip @ '':'' @ str_int p) elapsed data (format a) rate) rl" for rl
    by (simp add: print_final_result_def peer_id_def)
  have hd: "[print_header a] =
        [Header ''ID'' ''Interval'' (if server a then ''Received'' else ''Transfer'')
               (if server a then ''Rate\<newline>'' else ''Bandwidth\<newline>'')]"
    by (simp add: print_header_def)
  have c: "create_parallel_connections a session_env rank =
        (if \<exists>i < ?n. client_connection a (session_env i) [] = Unfinished then None
         else Some (?rl, ?out ?rl))"
    by (simp add: create_parallel_connections_def run rows hd)
  have one: "\<forall>e. length (appended a e) \<le> 1"
    by (rule allI) (rule appended_length)
  have le: "length ?rl \<le> ?n"
    using length_concat_at_most [of ?sessions "\<lambda>i. appended a (session_env i)"] one s(1)
    by simp
  have all: "length ?rl = ?n"
    if h: "\<forall>i < ?n. \<exists>f s1 s2 d.
           units (format a) = Some f \<and> time_advances (session_env i) \<and>
           start_session a (session_env i) = Inr s1 \<and>
           send_loop a (delays (session_env i)) s1 = Returned s2 () \<and>
           reply (session_env i) = Some (d, ''ACK: BYE'') \<and> d \<le> 5"
  proof -
    have "\<forall>i \<in> set ?sessions. length (appended a (session_env i)) = 1"
    proof
      fix i
      assume "i \<in> set ?sessions"
      then have "i < ?n" by simp
      with h obtain f s1 s2 d where
          "units (format a) = Some f" "time_advances (session_env i)"
          "start_session a (session_env i) = Inr s1"
          "send_loop a (delays (session_env i)) s1 = Returned s2 ()"
          "reply (session_env i) = Some (d, ''ACK: BYE'')" "d \<le> 5"
        by blast
      from appended_success [OF this] show "length (appended a (session_env i)) = 1"
        by auto
    qed
    from length_concat_singletons [OF this] s(1) show ?thesis
      by simp
  qed
  have hh: "length (filter is_header (?out rl)) = 1" for rl
  proof -
    have "filter is_header (map (\<lambda>(ip, p, elapsed, data, rate).
                   FinalRow (ip @ '':'' @ str_int p) elapsed data (format a) rate) rl) = []"
      by (induction rl) auto
    then show ?thesis by simp
  qed
  have fail: "\<forall>e. \<not> (\<exists>d. reply e = Some (d, ''ACK: BYE'') \<and> d \<le> 5) \<longrightarrow> appended a e = []"
    using appended_failed by blast
  have succ: "\<forall>e f s1 s2 d.
      units (format a) = Some f \<and> time_advances e \<and> start_session a e = Inr s1 \<and>
      send_loop a (delays e) s1 = Returned s2 () \<and>
      reply e = Some (d, ''ACK: BYE'') \<and> d \<le> 5 \<longrightarrow>
      (\<exists>elapsed data rate. appended a e = [(serverip a, port a, elapsed, data, rate)])"
    using appended_success by blast
  have p1: "create_parallel_connections a session_env rank = None \<longleftrightarrow>
      (\<exists>i < ?n. client_connection a (session_env i) [] = Unfinished)"
    by (simp add: c)
  have p2: "\<forall>results_list out.
      create_parallel_connections a session_env rank = Some (results_list, out) \<longrightarrow>
      (let sessions = sort_key rank [0..<nat (parallel a)]
       in length sessions = nat (parallel a) \<and> distinct sessions \<and>
          set sessions = {0..<nat (parallel a)} \<and>
          results_list = concat (map (\<lambda>i. appended a (session_env i)) sessions)) \<and>
      length results_list \<le> nat (parallel a) \<and>
      ((\<forall>i < nat (parallel a). \<exists>f s1 s2 d.
           units (format a) = Some f \<and> time_advances (session_env i) \<and>
           start_session a (session_env i) = Inr s1 \<and>
           send_loop a (delays (session_env i)) s1 = Returned s2 () \<and>
           reply (session_env i) = Some (d, ''ACK: BYE'') \<and> d \<le> 5)
         \<longrightarrow> length results_list = nat (parallel a)) \<and>
      out = ?out results_list \<and>
      length (filter is_header out) = 1"
  proof (intro allI impI)
    fix results_list out
    assume "create_parallel_connections a session_env rank = Some (results_list, out)"
    with c have r: "results_list = ?rl" and o: "out = ?out ?rl"
      by (auto split: if_splits)
    show "(let sessions = sort_key rank [0..<nat (parallel a)]
       in length sessions = nat (parallel a) \<and> distinct sessions \<and>
          set sessions = {0..<nat (parallel a)} \<and>
          results_list = concat (map (\<lambda>i. appended a (session_env i)) sessions)) \<and>
      length results_list \<le> nat (parallel a) \<and>
      ((\<forall>i < nat (parallel a). \<exists>f s1 s2 d.
           units (format a) = Some f \<and> time_advances (session_env i) \<and>
           start_session a (session_env i) = Inr s1 \<and>
           send_loop a (delays (session_env i)) s1 = Returned s2 () \<and>
           reply (session_env i) = Some (d, ''ACK: BYE'') \<and> d \<le> 5)
         \<longrightarrow> length results_list = nat (parallel a)) \<and>
      out = ?out results_list \<and>
      length (filter is_header out) = 1"
      unfolding r o Let_def
      using s le all hh [of ?rl] by (intro conjI impI) simp_all
  qed
  from p1 p2 one fail succ show ?thesis
    by (intro conjI)
qed


theorem orchestrator_aggregation_witness:
  "(\<exists>results_list out.
      create_parallel_connections
        \<lparr>server = False, bind = ''10.0.0.2'', port = 8088, format = ''MB'', client = True,
         serverip = ''10.0.0.2'', time = 25, interval = 0, parallel = 5, num = []\<rparr>
        (\<lambda>i. \<lparr>clock = 100, delays = [30], oversleep = 0,
              reply = Some (1, ''ACK: BYE''), final_delay = 0, sockname = (''10.0.0.1'', 40000)\<rparr>)
        (\<lambda>i. 5 - i) = Some (results_list, out) \<and>
      length results_list = 5 \<and> length (filter is_header out) = 1) \<and>
   appended
     \<lparr>server = False, bind = ''10.0.0.2'', port = 8088, format = ''MB'', client = True,
      serverip = ''10.0.0.2'', time = 25, interval = 0, parallel = 5, num = []\<rparr>
     \<lparr>clock = 100, delays = [30], oversleep = 0,
      reply = None, final_delay = 0, sockname = (''10.0.0.1'', 40000)\<rparr> = []"
proof -
  let ?a = "\<lparr>server = False, bind = ''10.0.0.2'', port = 8088, format = ''MB'', client = True,
         serverip = ''10.0.0.2'', time = 25, interval = 0, parallel = 5, num = []\<rparr>"
  let ?e = "\<lparr>clock = 100, delays = [30], oversleep = 0,
              reply = Some (1, ''ACK: BYE''), final_delay = 0, sockname = (''10.0.0.1'', 40000)\<rparr>"
  let ?e' = "\<lparr>clock = 100, delays = [30], oversleep = 0,
      reply = None, final_delay = 0, sockname = (''10.0.0.1'', 40000)\<rparr>"
  let ?s1 = "initial_session ?a ?e"
  let ?s2 = "?s1\<lparr>now := 130, elapsed_time := 30\<rparr>"
  note th = orchestrator_aggregation [of ?a "\<lambda>i. ?e" "\<lambda>i. 5 - i"]
  have h1: "units (format ?a) = Some 1000000"
    by (simp add: units_MB)
  have h2: "time_advances ?e"
    by (simp add: time_advances_def)
  have h3: "start_session ?a ?e = Inr ?s1"
    by (simp add: start_session_def)
  have h4: "send_loop ?a (delays ?e) ?s1 = Returned ?s2 ()"
    by (simp add: loop_body_def report_interval_def initial_session_def)
  have h5: "reply ?e = Some (1, ''ACK: BYE'') \<and> (1::real) \<le> 5"
    by simp
  have all: "\<forall>i < nat (parallel ?a). \<exists>f s1 s2 d.
           units (format ?a) = Some f \<and> time_advances ?e \<and>
           start_session ?a ?e = Inr s1 \<and>
           send_loop ?a (delays ?e) s1 = Returned s2 () \<and>
           reply ?e = Some (d, ''ACK: BYE'') \<and> d \<le> 5"
    using h1 h2 h3 h4 h5 by blast
  have nu: "client_connection ?a ?e [] \<noteq> Unfinished"
    using h3 h4 finish_session_state [where a = ?a and e = ?e and rl = "[]" and ?s0.0 = ?s2]
    by (auto simp: client_connection_def split: outcome.splits)
  have "create_parallel_connections ?a (\<lambda>i. ?e) (\<lambda>i. 5 - i) \<noteq> None"
    using th [THEN conjunct1] nu by simp
  then obtain rl out where c: "create_parallel_connections ?a (\<lambda>i. ?e) (\<lambda>i. 5 - i) = Some (rl, out)"
    by (cases "create_parallel_connections ?a (\<lambda>i. ?e) (\<lambda>i. 5 - i)") auto
  note c2 = th [THEN conjunct2, THEN conjunct1, THEN spec [of _ rl], THEN spec [of _ out],
      THEN mp, OF c]
  from c2 [THEN conjunct2, THEN conjunct2, THEN conjunct1, THEN mp, OF all]
  have "length rl = nat (parallel ?a)" .
  then have r1: "length rl = 5"
    by simp
  from c2 [THEN conjunct2, THEN conjunct2, THEN conjunct2, THEN conjunct2]
  have r2: "length (filter is_header out) = 1" .
  note r = r1 r2
  have n: "\<not> (\<exists>d. reply ?e' = Some (d, ''ACK: BYE'') \<and> d \<le> 5)"
    by simp
  from th [THEN conjunct2, THEN conjunct2, THEN conjunct2, THEN conjunct1,
      THEN spec [of _ ?e'], THEN mp, OF n]
  have f: "appended ?a ?e' = []" .
  from c r f show ?thesis
    by blast
qed

end
